(* ===== verification/Prelude.thy ===== *)
theory Prelude
  imports Main "HOL-Library.Word" "HOL-Library.AList"
begin

text \<open>
  Shared vocabulary of the development.

  \<^item> The names of the machine types the C++ code uses (\<open>uint8_t\<close>, \<open>uint16_t\<close>,
    \<open>uint32_t\<close>, byte vectors) and the fact collections of the components.
  \<^item> What can go wrong besides returning a value: a thrown standard exception, a thread
    that blocks for ever on a mutex it already holds, an access outside an array.
    A stateful C++ function is a \<open>prog\<close>: it takes the state and returns either a
    fault or a value, together with the state it leaves behind.
  \<^item> Traces of labelled step relations, which the concurrent parts share.
  \<^item> Big-endian values of byte lists, used for 160-bit identifiers and for the length
    fields of the wire format.
\<close>

unbundle bit_operations_syntax

type_synonym byte = "8 word"
type_synonym bytes = "byte list"
type_synonym u16 = "16 word"
type_synonym u32 = "32 word"
type_synonym u64 = "64 word"

named_theorems be_simps \<open>big-endian values of byte lists\<close>
named_theorems prog_simps \<open>evaluation rules of the program combinators\<close>

section \<open>Programs: state, results and faults\<close>

datatype fault =
    Invalid_argument   \<comment> \<open>\<open>std::invalid_argument\<close>\<close>
  | Out_of_range       \<comment> \<open>\<open>std::out_of_range\<close>\<close>
  | Runtime_error      \<comment> \<open>\<open>std::runtime_error\<close>\<close>
  | Deadlock           \<comment> \<open>a \<open>std::mutex\<close> locked again by the thread that holds it\<close>
  | Out_of_bounds      \<comment> \<open>\<open>operator[]\<close> outside the vector: undefined behaviour\<close>
  | Out_of_fuel        \<comment> \<open>the loop bound of the model was too small\<close>

type_synonym ('s, 'a) prog = "'s \<Rightarrow> (fault + 'a) \<times> 's"

fun std_exception :: "fault \<Rightarrow> bool" where
  "std_exception Invalid_argument = True"
| "std_exception Out_of_range = True"
| "std_exception Runtime_error = True"
| "std_exception _ = False"

definition ret :: "'a \<Rightarrow> ('s, 'a) prog" where
  "ret x = (\<lambda>s. (Inr x, s))"

definition raise :: "fault \<Rightarrow> ('s, 'a) prog" where
  "raise f = (\<lambda>s. (Inl f, s))"

definition bindP :: "('s, 'a) prog \<Rightarrow> ('a \<Rightarrow> ('s, 'b) prog) \<Rightarrow> ('s, 'b) prog" where
  "bindP m k = (\<lambda>s. case m s of (r, t) \<Rightarrow> (case r of Inl f \<Rightarrow> (Inl f, t) | Inr x \<Rightarrow> k x t))"

definition getP :: "('s \<Rightarrow> 'a) \<Rightarrow> ('s, 'a) prog" where
  "getP f = (\<lambda>s. (Inr (f s), s))"

definition modP :: "('s \<Rightarrow> 's) \<Rightarrow> ('s, unit) prog" where
  "modP g = (\<lambda>s. (Inr (), g s))"

text \<open>\<open>try { m } catch (const std::exception&) { h }\<close>: only exceptions are caught.\<close>

definition catchP :: "('s, 'a) prog \<Rightarrow> ('s, 'a) prog \<Rightarrow> ('s, 'a) prog" where
  "catchP m h = (\<lambda>s. case m s of (r, t) \<Rightarrow>
     (case r of Inl f \<Rightarrow> (if std_exception f then h t else (Inl f, t)) | Inr x \<Rightarrow> (Inr x, t)))"

lemma ret_apply [simp, prog_simps]: "ret x s = (Inr x, s)"
  by (simp add: ret_def)

lemma raise_apply [simp, prog_simps]: "raise f s = (Inl f, s)"
  by (simp add: raise_def)

lemma getP_apply [simp, prog_simps]: "getP f s = (Inr (f s), s)"
  by (simp add: getP_def)

lemma modP_apply [simp, prog_simps]: "modP g s = (Inr (), g s)"
  by (simp add: modP_def)

lemma bindP_Inr [simp, prog_simps]: "m s = (Inr x, t) \<Longrightarrow> bindP m k s = k x t"
  by (simp add: bindP_def)

lemma bindP_Inl [simp, prog_simps]: "m s = (Inl f, t) \<Longrightarrow> bindP m k s = (Inl f, t)"
  by (simp add: bindP_def)

lemma bindP_eq_Inr:
  "bindP m k s = (Inr y, u) \<longleftrightarrow> (\<exists>x t. m s = (Inr x, t) \<and> k x t = (Inr y, u))"
  by (auto simp: bindP_def split: prod.splits sum.splits)

lemma bindP_eq_Inl:
  "bindP m k s = (Inl f, u) \<longleftrightarrow>
     m s = (Inl f, u) \<or> (\<exists>x t. m s = (Inr x, t) \<and> k x t = (Inl f, u))"
  by (auto simp: bindP_def split: prod.splits sum.splits)

lemma bindP_assoc: "bindP (bindP m k) l = bindP m (\<lambda>x. bindP (k x) l)"
  by (auto simp: bindP_def fun_eq_iff split: prod.splits sum.splits)

lemma catchP_Inr [simp, prog_simps]: "m s = (Inr x, t) \<Longrightarrow> catchP m h s = (Inr x, t)"
  by (simp add: catchP_def)

lemma catchP_exn [simp, prog_simps]:
  "m s = (Inl f, t) \<Longrightarrow> std_exception f \<Longrightarrow> catchP m h s = h t"
  by (simp add: catchP_def)

lemma catchP_fault [simp, prog_simps]:
  "m s = (Inl f, t) \<Longrightarrow> \<not> std_exception f \<Longrightarrow> catchP m h s = (Inl f, t)"
  by (simp add: catchP_def)

section \<open>Big-endian values\<close>

fun be_val :: "bytes \<Rightarrow> nat" where
  "be_val [] = 0"
| "be_val (b # bs) = unat b * 256 ^ length bs + be_val bs"

lemma unat_byte_lt [simp]: "unat (b :: byte) < 256"
  using unsigned_less [of b, where ?'a = nat] by simp

lemma unat_byte_le [simp]: "unat (b :: byte) \<le> 255"
  using unat_byte_lt [of b] by linarith

lemma be_val_append [be_simps]: "be_val (xs @ ys) = be_val xs * 256 ^ length ys + be_val ys"
  by (induction xs) (simp_all add: power_add algebra_simps)

lemma be_val_bound: "be_val bs < 256 ^ length bs"
proof (induction bs)
  case Nil
  then show ?case by simp
next
  case (Cons b bs)
  have "unat b * 256 ^ length bs + be_val bs < (unat b + 1) * 256 ^ length bs"
    using Cons by simp
  also have "\<dots> \<le> 256 * 256 ^ length bs"
    by (rule mult_le_mono1) (use unat_byte_lt [of b] in linarith)
  finally show ?case by simp
qed

lemma be_val_replicate_zero [simp, be_simps]: "be_val (replicate n 0) = 0"
  by (induction n) simp_all

lemma be_val_replicate_ff: "be_val (replicate n 255) = 256 ^ n - 1"
proof (induction n)
  case 0
  then show ?case by simp
next
  case (Suc n)
  have "unat (255 :: byte) = 255" by simp
  then show ?case using Suc by (simp del: unsigned_numeral add: algebra_simps)
qed

lemma be_digit_less:
  fixes m n p x y :: nat
  assumes "x < p" and "y < p" and "m < n"
  shows "m * p + x < n * p + y"
proof -
  have "m * p + x < (m + 1) * p" using assms by simp
  also have "\<dots> \<le> n * p" using assms by (intro mult_le_mono1) simp
  finally show ?thesis by simp
qed

lemma be_val_inj: "length xs = length ys \<Longrightarrow> be_val xs = be_val ys \<longleftrightarrow> xs = ys"
proof (induction xs ys rule: list_induct2)
  case Nil
  then show ?case by simp
next
  case (Cons x xs y ys)
  have bx: "be_val xs < 256 ^ length ys" and "be_val ys < 256 ^ length ys"
    using be_val_bound [of xs] be_val_bound [of ys] Cons.hyps by simp_all
  then have "unat x \<noteq> unat y \<Longrightarrow> be_val (x # xs) \<noteq> be_val (y # ys)"
    using be_digit_less [of "be_val xs" _ "be_val ys" "unat x" "unat y"]
      be_digit_less [of "be_val ys" _ "be_val xs" "unat y" "unat x"] Cons.hyps
    by (metis be_val.simps(2) less_irrefl linorder_neqE_nat)
  then show ?case
    using Cons by (cases "unat x = unat y") (auto simp: word_unat_eq_iff)
qed

lemma drop_split: "drop a xs = take n (drop a xs) @ drop (a + n) xs"
  by (metis add.commute append_take_drop_id drop_drop)

lemma take_drop_middle: "length pre = n \<Longrightarrow> take (length ys) (drop n (pre @ ys @ post)) = ys"
  by simp

section \<open>32-bit words from and to bytes\<close>

text \<open>
  \<open>(a << 24) | (b << 16) | (c << 8) | d\<close> and its inverse, the byte extraction with
  \<open>& 0xFF\<close>: the wire format, both socket readers and SHA-1 use them.
\<close>

definition u32_of_bytes :: "byte \<Rightarrow> byte \<Rightarrow> byte \<Rightarrow> byte \<Rightarrow> u32" where
  "u32_of_bytes a b c d =
     push_bit 24 (ucast a) OR push_bit 16 (ucast b) OR push_bit 8 (ucast c) OR ucast d"

definition bytes_of_u32 :: "u32 \<Rightarrow> bytes" where
  "bytes_of_u32 x =
     [ucast (drop_bit 24 x AND 0xFF), ucast (drop_bit 16 x AND 0xFF),
      ucast (drop_bit 8 x AND 0xFF), ucast (x AND 0xFF)]"

lemma mask8: "(0xFF :: 'a::len word) = mask 8"
  by (simp add: mask_eq_exp_minus_1)

lemma ucast_and_ff: "(ucast ((x :: 'a::len word) AND 0xFF) :: byte) = ucast x"
  by (rule bit_word_eqI) (auto simp: mask8 bit_simps dest: bit_imp_le_length)

lemma bit_byte_ge: "8 \<le> n \<Longrightarrow> \<not> bit (a :: byte) n"
  using bit_imp_le_length [of a n] by auto

lemma bit_u32_of_bytes:
  "bit (u32_of_bytes a b c d) i \<longleftrightarrow>
     (if i < 8 then bit d i else if i < 16 then bit c (i - 8)
      else if i < 24 then bit b (i - 16) else i < 32 \<and> bit a (i - 24))"
  by (auto simp: u32_of_bytes_def bit_simps bit_byte_ge)

lemma bytes_of_u32_of_bytes: "bytes_of_u32 (u32_of_bytes a b c d) = [a, b, c, d]"
  unfolding bytes_of_u32_def ucast_and_ff
  by (auto intro!: bit_word_eqI simp: bit_simps bit_u32_of_bytes)

lemma u32_of_bytes_of_u32:
  "u32_of_bytes (ucast (drop_bit 24 x AND 0xFF)) (ucast (drop_bit 16 x AND 0xFF))
      (ucast (drop_bit 8 x AND 0xFF)) (ucast (x AND 0xFF)) = x"
  unfolding ucast_and_ff
  by (rule bit_word_eqI) (auto simp: bit_simps bit_u32_of_bytes)

lemma unat_u32_of_bytes: "unat (u32_of_bytes a b c d) = be_val [a, b, c, d]"
proof -
  have "u32_of_bytes a b c d = of_nat (be_val [a, b, c, d])"
  proof -
    have "push_bit 8 (ucast c) OR ucast d = push_bit 8 (ucast c) + (ucast d :: u32)"
      by (rule disjunctive_add_eq_or [symmetric], rule bit_word_eqI) (auto simp: bit_simps bit_byte_ge)
    moreover have "push_bit 16 (ucast b) OR (push_bit 8 (ucast c) OR ucast d)
        = push_bit 16 (ucast b) + (push_bit 8 (ucast c) OR (ucast d :: u32))"
      by (rule disjunctive_add_eq_or [symmetric], rule bit_word_eqI) (auto simp: bit_simps bit_byte_ge)
    moreover have "push_bit 24 (ucast a) OR (push_bit 16 (ucast b) OR (push_bit 8 (ucast c) OR ucast d))
        = push_bit 24 (ucast a) + (push_bit 16 (ucast b) OR (push_bit 8 (ucast c) OR (ucast d :: u32)))"
      by (rule disjunctive_add_eq_or [symmetric], rule bit_word_eqI) (auto simp: bit_simps bit_byte_ge)
    ultimately have "u32_of_bytes a b c d =
        push_bit 24 (ucast a) + (push_bit 16 (ucast b) + (push_bit 8 (ucast c) + ucast d))"
      unfolding u32_of_bytes_def or.assoc by metis
    then show ?thesis
      by (simp add: push_bit_eq_mult)
  qed
  moreover have "be_val [a, b, c, d] < 2 ^ 32"
    using be_val_bound [of "[a, b, c, d]"] by simp
  ultimately show ?thesis
    by (simp add: unsigned_of_nat take_bit_eq_mod del: be_val.simps)
qed

lemma unat_bytes_of_u32: "be_val (bytes_of_u32 x) = unat x"
  using unat_u32_of_bytes [symmetric] u32_of_bytes_of_u32 [of x] by (metis bytes_of_u32_def)

lemma length_bytes_of_u32 [simp]: "length (bytes_of_u32 x) = 4"
  by (simp add: bytes_of_u32_def)

section \<open>Association lists as \<open>std::unordered_map\<close>\<close>

text \<open>
  An \<open>std::unordered_map\<close> is an association list with distinct keys. The order of the list
  is one iteration order; the statements about iteration speak about the set of entries.
\<close>

abbreviation umap_wf :: "('k \<times> 'v) list \<Rightarrow> bool" where
  "umap_wf m \<equiv> distinct (map fst m)"

lemma umap_wf_update [simp, intro]: "umap_wf m \<Longrightarrow> umap_wf (AList.update k v m)"
  by (rule AList.distinct_update)

lemma umap_wf_delete [simp, intro]: "umap_wf m \<Longrightarrow> umap_wf (AList.delete k m)"
  by (simp add: AList.delete_eq distinct_map_filter)

lemma umap_wf_filter [simp, intro]: "umap_wf m \<Longrightarrow> umap_wf (filter P m)"
  by (simp add: distinct_map_filter)

lemma map_of_filter_key:
  "map_of (filter (\<lambda>e. P (fst e)) m) k = (if P k then map_of m k else None)"
  by (induction m) auto

lemma map_of_umap_delete [simp]: "map_of (AList.delete k m) = (map_of m)(k := None)"
  by (simp add: AList.delete_conv')

lemma map_of_umap_update [simp]: "map_of (AList.update k v m) = (map_of m)(k \<mapsto> v)"
  by (simp add: AList.update_conv')

lemma length_alist_update:
  "umap_wf m \<Longrightarrow>
     length (AList.update k v m) = (if map_of m k = None then Suc (length m) else length m)"
  by (induction m) auto

section \<open>Traces of step relations\<close>

inductive trace :: "('s \<Rightarrow> 'e \<Rightarrow> 's \<Rightarrow> bool) \<Rightarrow> 's \<Rightarrow> 'e list \<Rightarrow> 's \<Rightarrow> bool" for step where
  trace_nil: "trace step p [] p"
| trace_snoc: "trace step p es q \<Longrightarrow> step q e r \<Longrightarrow> trace step p (es @ [e]) r"

lemma trace_single: "step p e q \<Longrightarrow> trace step p [e] q"
  using trace_snoc [OF trace_nil] by fastforce

lemma trace_append: "trace step q fs r \<Longrightarrow> trace step p es q \<Longrightarrow> trace step p (es @ fs) r"
proof (induction rule: trace.induct)
  case (trace_snoc q fs r e s)
  then show ?case using trace.trace_snoc [of step p "es @ fs" r e s] by simp
qed simp

text \<open>A property that every step keeps holds at the end of every trace.\<close>

lemma trace_invariant:
  assumes "trace step p es q" "I p" "\<And>p e q. step p e q \<Longrightarrow> I p \<Longrightarrow> I q"
  shows "I q"
  using assms(1,2) by (induction rule: trace.induct) (auto intro: assms(3))

text \<open>A trace given as the list of its events and the states after them.\<close>

fun steps_through :: "('s \<Rightarrow> 'e \<Rightarrow> 's \<Rightarrow> bool) \<Rightarrow> 's \<Rightarrow> ('e \<times> 's) list \<Rightarrow> bool" where
  "steps_through step p [] \<longleftrightarrow> True"
| "steps_through step p ((e, q) # es) \<longleftrightarrow> step p e q \<and> steps_through step q es"

lemma trace_steps: "steps_through step p es \<Longrightarrow> trace step p (map fst es) (last (p # map snd es))"
proof (induction es arbitrary: p)
  case Nil
  then show ?case by (simp add: trace_nil)
next
  case (Cons x es)
  obtain e q where x: "x = (e, q)" by fastforce
  have "trace step p [e] q" using Cons.prems x by (intro trace_single) simp
  moreover have "trace step q (map fst es) (last (q # map snd es))" using Cons x by simp
  ultimately show ?case using trace_append x by fastforce
qed

end
