(* ===== verification/Cpp_Std.thy ===== *)
theory Cpp_Std
  imports Prelude
begin

text \<open>
  The parts of the C++ standard library the program relies on: byte strings,
  \<open>std::to_string\<close> for unsigned integers, \<open>std::stoi\<close> with its two exceptions,
  \<open>std::atoi\<close>, and \<open>find\<close>/\<open>substr\<close> as the code uses them to split
  \<open>host:port\<close>. The central fact is the round trip of an address through its text form,
  on which every redirect, notification and predecessor reply of the system depends.
\<close>

section \<open>Characters and bytes\<close>

definition byte_of_char :: "char \<Rightarrow> byte" where
  "byte_of_char c = of_char c"

definition char_of_byte :: "byte \<Rightarrow> char" where
  "char_of_byte b = char_of (unat b)"

abbreviation bytes_of_string :: "string \<Rightarrow> bytes" where
  "bytes_of_string \<equiv> map byte_of_char"

abbreviation string_of_bytes :: "bytes \<Rightarrow> string" where
  "string_of_bytes \<equiv> map char_of_byte"

lemma unat_of_char: "unat (of_char c :: byte) = of_char c"
proof -
  have lt: "(of_char c :: nat) < 256" by (rule nat_of_char_less_256)
  have "(of_char c :: byte) = of_nat (of_char c)" by (simp add: of_nat_of_char)
  then have "unat (of_char c :: byte) = of_char c mod 256"
    by (simp add: unsigned_of_nat take_bit_eq_mod)
  then show ?thesis using lt by simp
qed

lemma char_byte_char [simp]: "char_of_byte (byte_of_char c) = c"
  by (simp add: char_of_byte_def byte_of_char_def unat_of_char)

lemma byte_char_byte [simp]: "byte_of_char (char_of_byte b) = b"
proof -
  have "unat (byte_of_char (char_of_byte b)) = unat b mod 256"
    by (simp add: char_of_byte_def byte_of_char_def unat_of_char del: unat_byte_lt)
  then show ?thesis by (simp add: word_unat_eq_iff)
qed

lemma string_bytes_string [simp]: "string_of_bytes (bytes_of_string s) = s"
  by (induction s) simp_all

lemma bytes_string_bytes [simp]: "bytes_of_string (string_of_bytes b) = b"
  by (induction b) simp_all

lemma string_bytes_comp [simp]: "map (char_of_byte \<circ> byte_of_char) s = s"
  using string_bytes_string [of s] by (simp only: map_map)

lemma bytes_string_comp [simp]: "map (byte_of_char \<circ> char_of_byte) b = b"
  using bytes_string_bytes [of b] by (simp only: map_map)

lemma bytes_of_string_inj: "bytes_of_string s = bytes_of_string t \<longleftrightarrow> s = t"
  by (metis string_bytes_string)

section \<open>Numbers to text and back\<close>

definition digit_char :: "nat \<Rightarrow> char" where
  "digit_char d = (if d < 10 then char_of (48 + d) else char_of (87 + d))"

definition digit_val :: "char \<Rightarrow> nat option" where
  "digit_val c = (let n = of_char c :: nat in
     if 48 \<le> n \<and> n \<le> 57 then Some (n - 48)
     else if 97 \<le> n \<and> n \<le> 122 then Some (n - 87)
     else if 65 \<le> n \<and> n \<le> 90 then Some (n - 55)
     else None)"

lemma digit_val_digit_char [simp]: "d < 36 \<Longrightarrow> digit_val (digit_char d) = Some d"
  by (auto simp: digit_val_def digit_char_def Let_def)

text \<open>\<open>std::to_string\<close> on an unsigned value.\<close>

fun to_string_nat :: "nat \<Rightarrow> string" where
  "to_string_nat n =
     (if n < 10 then [digit_char n] else to_string_nat (n div 10) @ [digit_char (n mod 10)])"

declare to_string_nat.simps [simp del]

definition to_string_u16 :: "u16 \<Rightarrow> string" where
  "to_string_u16 p = to_string_nat (unat p)"

definition isspace :: "char \<Rightarrow> bool" where
  "isspace c = (let n = of_char c :: nat in n = 32 \<or> (9 \<le> n \<and> n \<le> 13))"

text \<open>The digits of \<open>strtol\<close>: the longest prefix of digits below the base.\<close>

fun scan_digits :: "nat \<Rightarrow> nat \<Rightarrow> string \<Rightarrow> nat \<times> nat" where
  "scan_digits base acc [] = (0, acc)"
| "scan_digits base acc (c # cs) =
     (case digit_val c of
        None \<Rightarrow> (0, acc)
      | Some d \<Rightarrow>
          (if d < base
           then (case scan_digits base (acc * base + d) cs of (k, v) \<Rightarrow> (Suc k, v))
           else (0, acc)))"

text \<open>
  \<open>strtol\<close>: leading white space, an optional sign, in base 16 an optional \<open>0x\<close> that is
  followed by a hexadecimal digit, then digits. \<open>None\<close> when there is no digit.
\<close>

definition skip_hex_prefix :: "nat \<Rightarrow> string \<Rightarrow> string" where
  "skip_hex_prefix base cs =
     (case cs of
        z # x # h # rest \<Rightarrow>
          (if base = 16 \<and> z = CHR ''0'' \<and> (x = CHR ''x'' \<or> x = CHR ''X'')
              \<and> (case digit_val h of None \<Rightarrow> False | Some d \<Rightarrow> d < 16)
           then h # rest else cs)
      | _ \<Rightarrow> cs)"

definition strtol_value :: "nat \<Rightarrow> string \<Rightarrow> int option" where
  "strtol_value base s =
     (let t = dropWhile isspace s;
          neg = (t \<noteq> [] \<and> hd t = CHR ''-'');
          u = (if t \<noteq> [] \<and> (hd t = CHR ''-'' \<or> hd t = CHR ''+'') then tl t else t)
      in case scan_digits base 0 (skip_hex_prefix base u) of
           (k, v) \<Rightarrow> if k = 0 then None else Some (if neg then - int v else int v))"

text \<open>\<open>std::stoi(s, nullptr, base)\<close>.\<close>

definition stoi :: "nat \<Rightarrow> string \<Rightarrow> fault + int" where
  "stoi base s =
     (case strtol_value base s of
        None \<Rightarrow> Inl Invalid_argument
      | Some v \<Rightarrow> (if - (2 ^ 31) \<le> v \<and> v < 2 ^ 31 then Inr v else Inl Out_of_range))"

text \<open>
  \<open>std::atoi\<close> as the C library computes it: \<open>strtol\<close> saturates at the bounds of
  \<open>long\<close>, the conversion to \<open>int\<close> keeps the low 32 bits; no digits give 0.
\<close>

definition atoi :: "string \<Rightarrow> int" where
  "atoi s =
     (case strtol_value 10 s of
        None \<Rightarrow> 0
      | Some v \<Rightarrow> sint (word_of_int (max (- (2 ^ 63)) (min (2 ^ 63 - 1) v)) :: u32))"

lemma to_string_nat_nonempty [simp]: "to_string_nat n \<noteq> []"
  by (subst to_string_nat.simps) simp

lemma set_to_string_nat: "c \<in> set (to_string_nat n) \<Longrightarrow> \<exists>d < 10. c = digit_char d"
proof (induction n rule: to_string_nat.induct)
  case (1 n)
  show ?case
  proof (cases "n < 10")
    case True
    then show ?thesis using 1 by (auto simp: to_string_nat.simps [of n])
  next
    case False
    then have "c \<in> set (to_string_nat (n div 10)) \<or> c = digit_char (n mod 10)"
      using 1 by (auto simp: to_string_nat.simps [of n])
    then show ?thesis using "1.IH" False by (auto intro: exI [of _ "n mod 10"])
  qed
qed

lemma scan_digits_append:
  "\<forall>c \<in> set xs. \<exists>d < base. digit_val c = Some d \<Longrightarrow>
   scan_digits base acc (xs @ ys) =
     (case scan_digits base acc xs of (k, v) \<Rightarrow>
        (case scan_digits base v ys of (l, u) \<Rightarrow> (k + l, u)))"
  by (induction xs arbitrary: acc) (auto split: prod.splits)

lemma scan_digits_to_string:
  "scan_digits 10 0 (to_string_nat n) = (length (to_string_nat n), n)"
proof (induction n rule: to_string_nat.induct)
  case (1 n)
  show ?case
  proof (cases "n < 10")
    case True
    then show ?thesis by (simp add: to_string_nat.simps [of n])
  next
    case False
    have "\<forall>c \<in> set (to_string_nat (n div 10)). \<exists>d < 10. digit_val c = Some d"
      using set_to_string_nat by fastforce
    then show ?thesis
      using 1 False by (simp add: to_string_nat.simps [of n] scan_digits_append)
  qed
qed

lemma hd_to_string_nat: "\<exists>d < 10. hd (to_string_nat n) = digit_char d"
  using set_to_string_nat [of "hd (to_string_nat n)" n] by simp

lemma of_char_digit_char: "d < 36 \<Longrightarrow> (of_char (digit_char d) :: nat) = (if d < 10 then 48 + d else 87 + d)"
  by (simp add: digit_char_def)

lemma digit_char_not_special:
  "d < 36 \<Longrightarrow> \<not> isspace (digit_char d) \<and> digit_char d \<noteq> CHR ''-'' \<and> digit_char d \<noteq> CHR ''+''
     \<and> digit_char d \<noteq> CHR '':''"
proof -
  assume d: "d < 36"
  have "digit_char d \<noteq> c" if "(of_char c :: nat) < 48 \<or> of_char c = (58 :: nat)" for c
    using of_char_digit_char [OF d] d that by (auto split: if_splits)
  then show ?thesis using of_char_digit_char [OF d] by (auto simp: isspace_def Let_def)
qed

lemma strtol_to_string: "strtol_value 10 (to_string_nat n) = Some (int n)"
proof -
  obtain d where d: "d < 10" "hd (to_string_nat n) = digit_char d"
    using hd_to_string_nat by blast
  then have "dropWhile isspace (to_string_nat n) = to_string_nat n"
    using digit_char_not_special [of d] by (simp add: dropWhile_eq_self_iff)
  moreover have "skip_hex_prefix 10 (to_string_nat n) = to_string_nat n"
    by (auto simp: skip_hex_prefix_def split: list.splits)
  ultimately show ?thesis
    using d digit_char_not_special [of d]
    by (simp add: strtol_value_def scan_digits_to_string Let_def)
qed

lemma stoi_to_string: "n < 2 ^ 31 \<Longrightarrow> stoi 10 (to_string_nat n) = Inr (int n)"
  by (simp add: stoi_def strtol_to_string)

lemma unat_u16_lt: "unat (p :: u16) < 65536"
  using unsigned_less [of p, where ?'a = nat] by simp

lemma stoi_to_string_u16 [simp]: "stoi 10 (to_string_u16 p) = Inr (int (unat p))"
  using unat_u16_lt [of p] by (simp add: to_string_u16_def stoi_to_string)

lemma stoi_hex_pair:
  assumes "a < 16" "b < 16"
  shows "stoi 16 [digit_char a, digit_char b] = Inr (int (16 * a + b))"
proof -
  define x where "x = digit_char a"
  define y where "y = digit_char b"
  have x: "\<not> isspace x" "x \<noteq> CHR ''-''" "x \<noteq> CHR ''+''"
    using digit_char_not_special [of a] assms by (simp_all add: x_def)
  have v: "digit_val x = Some a" "digit_val y = Some b"
    using assms by (simp_all add: x_def y_def)
  have "skip_hex_prefix 16 [x, y] = [x, y]" by (simp add: skip_hex_prefix_def)
  then have "strtol_value 16 [x, y] = Some (int (a * 16 + b))"
    using x v assms by (simp add: strtol_value_def)
  moreover have "a * 16 + b < 256" using assms by simp
  ultimately show ?thesis unfolding stoi_def x_def [symmetric] y_def [symmetric] by simp
qed

section \<open>The text form of an address\<close>

text \<open>
  \<open>addr + ":" + std::to_string(port)\<close>, and the parsing of it that occurs in the client
  (redirects), the server (\<open>NOTIFY\<close>), the failure detector and the main program:
  \<open>find(':')\<close>, \<open>substr(0, pos)\<close>, \<open>stoi(substr(pos + 1))\<close>.
\<close>

definition host_port :: "string \<Rightarrow> u16 \<Rightarrow> string" where
  "host_port addr p = addr @ '':'' @ to_string_u16 p"

definition find_colon :: "string \<Rightarrow> nat option" where
  "find_colon s = (let k = length (takeWhile (\<lambda>c. c \<noteq> CHR '':'') s)
                   in if k < length s then Some k else None)"

lemma find_colon_append:
  "CHR '':'' \<notin> set a \<Longrightarrow> find_colon (a @ CHR '':'' # b) = Some (length a)"
proof -
  assume "CHR '':'' \<notin> set a"
  then have "takeWhile (\<lambda>c. c \<noteq> CHR '':'') (a @ CHR '':'' # b) = a"
    by (induction a) auto
  then show ?thesis by (simp add: find_colon_def)
qed

lemma find_colon_None: "find_colon s = None \<longleftrightarrow> CHR '':'' \<notin> set s"
  by (induction s) (auto simp: find_colon_def Let_def split: if_splits)

lemma find_colon_host_port:
  "CHR '':'' \<notin> set a \<Longrightarrow> find_colon (host_port a p) = Some (length a)"
  by (simp add: host_port_def find_colon_append)

lemma take_host_port [simp]: "take (length a) (host_port a p) = a"
  by (simp add: host_port_def)

lemma drop_host_port [simp]: "drop (Suc (length a)) (host_port a p) = to_string_u16 p"
  by (simp add: host_port_def)

lemma host_port_nonempty [simp]: "host_port a p \<noteq> []"
  by (simp add: host_port_def)

lemma to_string_nat_inj: "to_string_nat m = to_string_nat n \<longleftrightarrow> m = n"
  by (metis prod.inject scan_digits_to_string)

lemma host_port_inj:
  assumes "CHR '':'' \<notin> set a" and "CHR '':'' \<notin> set b"
  shows "host_port a p = host_port b q \<longleftrightarrow> a = b \<and> p = q"
proof
  assume eq: "host_port a p = host_port b q"
  then have "length a = length b"
    using find_colon_host_port [OF assms(1), of p] find_colon_host_port [OF assms(2), of q] by simp
  then show "a = b \<and> p = q"
    using eq by (auto simp: host_port_def to_string_u16_def to_string_nat_inj word_unat_eq_iff)
qed simp

lemma word_of_int_unat_u16 [simp]: "(word_of_int (int (unat p)) :: u16) = p"
  by simp

end
