(* ===== verification/Protocol.thy ===== *)
theory Protocol
  imports Cpp_Std
begin

text \<open>
  The binary protocol of \<open>src/include/protocol.h\<close> and \<open>src/src/protocol.cpp\<close>: operation and
  status codes, requests and responses, and the four coding functions. An enumeration
  with underlying type \<open>uint8_t\<close> holds any byte, so each code type has one constructor
  for the bytes that no enumerator names. The decoders follow the code: an \<open>offset\<close> that
  moves through the buffer, a check before each read, and an out parameter that is
  partly written when a check fails. The locale \<open>frame_codec\<close> states what a pair of
  coding functions promises; both pairs of the protocol interpret it.
\<close>

section \<open>Codes\<close>

datatype OpCode =
    GET | PUT | DELETE | JOIN | STABILIZE | NOTIFY | PING | REPLICATE | TRANSFER_KEY
  | FIND_SUCCESSOR | FIND_PREDECESSOR | GET_PREDECESSOR | GET_SUCCESSOR
  | CLOSEST_PRECEDING_NODE | NODE_INFO | ADMIN_SHUTDOWN
  | OpOther byte

fun opcode_byte :: "OpCode \<Rightarrow> byte" where
  "opcode_byte GET = 0x01"
| "opcode_byte PUT = 0x02"
| "opcode_byte DELETE = 0x03"
| "opcode_byte JOIN = 0x10"
| "opcode_byte STABILIZE = 0x11"
| "opcode_byte NOTIFY = 0x12"
| "opcode_byte PING = 0x13"
| "opcode_byte REPLICATE = 0x14"
| "opcode_byte TRANSFER_KEY = 0x15"
| "opcode_byte FIND_SUCCESSOR = 0x20"
| "opcode_byte FIND_PREDECESSOR = 0x21"
| "opcode_byte GET_PREDECESSOR = 0x22"
| "opcode_byte GET_SUCCESSOR = 0x23"
| "opcode_byte CLOSEST_PRECEDING_NODE = 0x24"
| "opcode_byte NODE_INFO = 0x25"
| "opcode_byte ADMIN_SHUTDOWN = 0x30"
| "opcode_byte (OpOther b) = b"

definition named_opcodes :: "OpCode list" where
  "named_opcodes =
     [GET, PUT, DELETE, JOIN, STABILIZE, NOTIFY, PING, REPLICATE, TRANSFER_KEY, FIND_SUCCESSOR,
      FIND_PREDECESSOR, GET_PREDECESSOR, GET_SUCCESSOR, CLOSEST_PRECEDING_NODE, NODE_INFO,
      ADMIN_SHUTDOWN]"

text \<open>\<open>static_cast<OpCode>(b)\<close>.\<close>

definition opcode_of_byte :: "byte \<Rightarrow> OpCode" where
  "opcode_of_byte b =
     (case find (\<lambda>c. opcode_byte c = b) named_opcodes of Some c \<Rightarrow> c | None \<Rightarrow> OpOther b)"

definition opcode_wf :: "OpCode \<Rightarrow> bool" where
  "opcode_wf c \<longleftrightarrow> opcode_of_byte (opcode_byte c) = c"

datatype StatusCode = SUCCESS | KEY_NOT_FOUND | ERROR | REDIRECT | StatusOther byte

fun status_byte :: "StatusCode \<Rightarrow> byte" where
  "status_byte SUCCESS = 0x00"
| "status_byte KEY_NOT_FOUND = 0x01"
| "status_byte ERROR = 0x02"
| "status_byte REDIRECT = 0x03"
| "status_byte (StatusOther b) = b"

definition status_of_byte :: "byte \<Rightarrow> StatusCode" where
  "status_of_byte b =
     (case find (\<lambda>c. status_byte c = b) [SUCCESS, KEY_NOT_FOUND, ERROR, REDIRECT] of
        Some c \<Rightarrow> c | None \<Rightarrow> StatusOther b)"

definition status_wf :: "StatusCode \<Rightarrow> bool" where
  "status_wf c \<longleftrightarrow> status_of_byte (status_byte c) = c"

section \<open>Requests and responses\<close>

record Request =
  req_opcode :: OpCode
  req_key :: bytes
  req_value :: bytes

record Response =
  resp_status :: StatusCode
  resp_value :: bytes

text \<open>The default constructors.\<close>

definition Request0 :: Request where
  "Request0 = \<lparr>req_opcode = GET, req_key = [], req_value = []\<rparr>"

definition Response0 :: Response where
  "Response0 = \<lparr>resp_status = ERROR, resp_value = []\<rparr>"

section \<open>Coding\<close>

definition writeUint32 :: "bytes \<Rightarrow> u32 \<Rightarrow> bytes" where
  "writeUint32 buffer v =
     buffer @ [ucast (drop_bit 24 v AND 0xFF)] @ [ucast (drop_bit 16 v AND 0xFF)] @
              [ucast (drop_bit 8 v AND 0xFF)] @ [ucast (v AND 0xFF)]"

text \<open>
  \<open>readUint32(data, offset, len, value)\<close> returns the flag, the new offset and the new value.
  Offsets are \<open>size_t\<close>; they never exceed the length of a vector, so \<open>offset + 4\<close> and
  \<open>offset + keyLen\<close> do not wrap and are computed in \<open>nat\<close>.
\<close>

definition readUint32 :: "bytes \<Rightarrow> nat \<Rightarrow> nat \<Rightarrow> u32 \<Rightarrow> bool \<times> nat \<times> u32" where
  "readUint32 data offset len v =
     (if offset + 4 > len then (False, offset, v)
      else (True, offset + 4,
            u32_of_bytes (data ! offset) (data ! (offset + 1)) (data ! (offset + 2))
              (data ! (offset + 3))))"

definition encodeRequest :: "Request \<Rightarrow> bytes" where
  "encodeRequest req =
     (let b0 = [opcode_byte (req_opcode req)];
          b1 = writeUint32 b0 (of_nat (length (req_key req)));
          b2 = b1 @ req_key req;
          b3 = writeUint32 b2 (of_nat (length (req_value req)))
      in b3 @ req_value req)"

definition decodeRequest :: "bytes \<Rightarrow> Request \<Rightarrow> bool \<times> Request" where
  "decodeRequest data req =
     (if data = [] then (False, req)
      else let len = length data; req1 = req\<lparr>req_opcode := opcode_of_byte (data ! 0)\<rparr>
      in case readUint32 data 1 len 0 of (ok, offset, keyLen) \<Rightarrow>
         if \<not> ok then (False, req1)
         else if offset + unat keyLen > len then (False, req1)
         else let req2 = req1\<lparr>req_key := take (unat keyLen) (drop offset data)\<rparr>
         in case readUint32 data (offset + unat keyLen) len 0 of (ok2, offset2, valueLen) \<Rightarrow>
            if \<not> ok2 then (False, req2)
            else if offset2 + unat valueLen > len then (False, req2)
            else (True, req2\<lparr>req_value := take (unat valueLen) (drop offset2 data)\<rparr>))"

definition encodeResponse :: "Response \<Rightarrow> bytes" where
  "encodeResponse resp =
     (let b0 = [status_byte (resp_status resp)];
          b1 = writeUint32 b0 (of_nat (length (resp_value resp)))
      in b1 @ resp_value resp)"

definition decodeResponse :: "bytes \<Rightarrow> Response \<Rightarrow> bool \<times> Response" where
  "decodeResponse data resp =
     (if data = [] then (False, resp)
      else let len = length data; resp1 = resp\<lparr>resp_status := status_of_byte (data ! 0)\<rparr>
      in case readUint32 data 1 len 0 of (ok, offset, valueLen) \<Rightarrow>
         if \<not> ok then (False, resp1)
         else if offset + unat valueLen > len then (False, resp1)
         else (True, resp1\<lparr>resp_value := take (unat valueLen) (drop offset data)\<rparr>))"

section \<open>What a codec promises\<close>

locale frame_codec =
  fixes enc :: "'a \<Rightarrow> bytes"
    and dec :: "bytes \<Rightarrow> 'a \<Rightarrow> bool \<times> 'a"
    and wf :: "'a \<Rightarrow> bool"
  assumes decode_encode: "wf x \<Longrightarrow> dec (enc x @ rest) y = (True, x)"
    and decode_sound: "dec bs y = (True, x) \<Longrightarrow> wf x \<and> (\<exists>rest. bs = enc x @ rest)"
begin

lemma round_trip: "wf x \<Longrightarrow> dec (enc x) y = (True, x)"
  using decode_encode [of x "[]" y] by simp

lemma unique_frame:
  assumes "wf x" "wf y" "enc x @ r = enc y @ s"
  shows "x = y \<and> r = s"
  using decode_encode [OF assms(1), of r x] decode_encode [OF assms(2), of s x] assms(3)
  by simp

lemma accepts_iff: "fst (dec bs y) \<longleftrightarrow> (\<exists>x rest. wf x \<and> bs = enc x @ rest)"
proof
  assume "fst (dec bs y)"
  then have "dec bs y = (True, snd (dec bs y))" by (simp add: prod_eq_iff)
  then show "\<exists>x rest. wf x \<and> bs = enc x @ rest" using decode_sound by blast
next
  assume "\<exists>x rest. wf x \<and> bs = enc x @ rest"
  then show "fst (dec bs y)" using decode_encode by fastforce
qed

lemma out_parameter_irrelevant: "fst (dec bs y) \<Longrightarrow> dec bs z = dec bs y"
  using accepts_iff [of bs y] decode_encode by fastforce

lemma no_frame_is_a_proper_prefix:
  assumes "wf x" "wf y" "enc x @ r = enc y"
  shows "r = []"
  using unique_frame [of x y r "[]"] assms by simp

end

section \<open>Both pairs are codecs\<close>

lemma opcode_of_byte_byte [simp]: "opcode_byte (opcode_of_byte b) = b"
  by (auto simp: opcode_of_byte_def named_opcodes_def)

lemma opcode_wf_of_byte [simp]: "opcode_wf (opcode_of_byte b)"
  by (simp add: opcode_wf_def)

lemma opcode_wf_iff: "opcode_wf c \<longleftrightarrow> (\<forall>b. c = OpOther b \<longrightarrow> b \<notin> opcode_byte ` set named_opcodes)"
  by (cases c) (auto simp: opcode_wf_def opcode_of_byte_def named_opcodes_def)

lemma status_of_byte_byte [simp]: "status_byte (status_of_byte b) = b"
  by (auto simp: status_of_byte_def)

lemma status_wf_of_byte [simp]: "status_wf (status_of_byte b)"
  by (simp add: status_wf_def)

lemma status_wf_named [simp]:
  "status_wf SUCCESS" "status_wf KEY_NOT_FOUND" "status_wf ERROR" "status_wf REDIRECT"
  by (simp_all add: status_wf_def status_of_byte_def)

definition request_wf :: "Request \<Rightarrow> bool" where
  "request_wf r \<longleftrightarrow> opcode_wf (req_opcode r) \<and> length (req_key r) < 2 ^ 32 \<and> length (req_value r) < 2 ^ 32"

definition response_wf :: "Response \<Rightarrow> bool" where
  "response_wf r \<longleftrightarrow> status_wf (resp_status r) \<and> length (resp_value r) < 2 ^ 32"

lemma writeUint32_append: "writeUint32 b v = b @ bytes_of_u32 v"
  by (simp add: writeUint32_def bytes_of_u32_def)

lemma encodeRequest_append:
  "encodeRequest r = opcode_byte (req_opcode r) # bytes_of_u32 (of_nat (length (req_key r))) @
     req_key r @ bytes_of_u32 (of_nat (length (req_value r))) @ req_value r"
  by (simp add: encodeRequest_def writeUint32_append Let_def)

lemma encodeResponse_append:
  "encodeResponse r = status_byte (resp_status r) # bytes_of_u32 (of_nat (length (resp_value r))) @
     resp_value r"
  by (simp add: encodeResponse_def writeUint32_append Let_def)

lemma bytes_of_u32_cases: "\<exists>a b c d. bytes_of_u32 v = [a, b, c, d] \<and> u32_of_bytes a b c d = v"
  unfolding bytes_of_u32_def using u32_of_bytes_of_u32 [of v] by blast

lemma readUint32_at:
  assumes "data = pre @ bytes_of_u32 v @ post"
  shows "readUint32 data (length pre) (length data) x = (True, length pre + 4, v)"
proof -
  obtain a b c d where v: "bytes_of_u32 v = [a, b, c, d]" "u32_of_bytes a b c d = v"
    using bytes_of_u32_cases by blast
  have "data ! (length pre + k) = (bytes_of_u32 v @ post) ! k" for k
    using assms by (simp add: nth_append)
  from this [of 0] this [of 1] this [of 2] this [of 3] show ?thesis
    using assms v by (simp add: readUint32_def)
qed

lemma readUint32_True:
  assumes "readUint32 data offset (length data) x = (True, offset', v)"
  shows "offset' = offset + 4 \<and> offset + 4 \<le> length data \<and>
    drop offset data = bytes_of_u32 v @ drop offset' data"
proof -
  have le: "offset + 4 \<le> length data" and o: "offset' = offset + 4"
    and v: "v = u32_of_bytes (data ! offset) (data ! (offset + 1)) (data ! (offset + 2)) (data ! (offset + 3))"
    using assms by (auto simp: readUint32_def split: if_splits)
  have "drop offset data = data ! offset # data ! (offset + 1) # data ! (offset + 2) #
      data ! (offset + 3) # drop (offset + 4) data"
    using le by (simp add: Cons_nth_drop_Suc numeral_eq_Suc)
  then show ?thesis using le o v by (simp add: bytes_of_u32_of_bytes)
qed

lemma decodeRequest_encode:
  assumes "request_wf x"
  shows "decodeRequest (encodeRequest x @ rest) y = (True, x)"
proof -
  let ?k = "req_key x" and ?v = "req_value x"
  let ?kl = "of_nat (length ?k) :: u32" and ?vl = "of_nat (length ?v) :: u32"
  let ?data = "encodeRequest x @ rest"
  have kl: "unat ?kl = length ?k" and vl: "unat ?vl = length ?v"
    using assms by (simp_all add: request_wf_def unsigned_of_nat take_bit_eq_mod)
  let ?op = "[opcode_byte (req_opcode x)]"
  let ?pre = "?op @ bytes_of_u32 ?kl @ ?k"
  have d: "?data = ?op @ bytes_of_u32 ?kl @ (?k @ bytes_of_u32 ?vl @ ?v @ rest)"
    "?data = ?pre @ bytes_of_u32 ?vl @ (?v @ rest)"
    by (simp_all add: encodeRequest_append)
  have r1: "readUint32 ?data 1 (length ?data) 0 = (True, 5, ?kl)"
    using readUint32_at [OF d(1), of 0] by simp
  have r2: "readUint32 ?data (5 + length ?k) (length ?data) 0 = (True, 9 + length ?k, ?vl)"
    using readUint32_at [OF d(2), of 0] by (simp add: add.commute)
  have k: "take (length ?k) (drop 5 ?data) = ?k"
    by (simp add: encodeRequest_append)
  have v: "take (length ?v) (drop (9 + length ?k) ?data) = ?v"
    using take_drop_middle [of "?pre @ bytes_of_u32 ?vl" "9 + length ?k" ?v rest] d(2) by simp
  have n: "?data \<noteq> []" "?data ! 0 = opcode_byte (req_opcode x)" "length ?data = 9 + length ?k + length ?v + length rest"
    by (simp_all add: encodeRequest_append)
  have op: "opcode_of_byte (opcode_byte (req_opcode x)) = req_opcode x"
    using assms by (simp add: request_wf_def opcode_wf_def)
  show ?thesis
    unfolding decodeRequest_def Let_def r1 prod.case n(2) kl r2 vl k v op
    using n by simp
qed

lemma decodeRequest_sound:
  assumes "decodeRequest bs y = (True, x)"
  shows "request_wf x \<and> (\<exists>rest. bs = encodeRequest x @ rest)"
proof -
  obtain o1 kl where r1: "readUint32 bs 1 (length bs) 0 = (True, o1, kl)"
    and k: "o1 + unat kl \<le> length bs"
    and ne: "bs \<noteq> []"
    using assms by (auto simp: decodeRequest_def Let_def split: if_splits prod.splits)
  obtain o2 vl where r2: "readUint32 bs (o1 + unat kl) (length bs) 0 = (True, o2, vl)"
    and v: "o2 + unat vl \<le> length bs"
    and x: "x = y\<lparr>req_opcode := opcode_of_byte (bs ! 0), req_key := take (unat kl) (drop o1 bs),
                   req_value := take (unat vl) (drop o2 bs)\<rparr>"
    using assms r1 k ne by (auto simp: decodeRequest_def Let_def split: if_splits prod.splits)
  note s1 = readUint32_True [OF r1] and s2 = readUint32_True [OF r2]
  have kl: "length (req_key x) = unat kl" and vl: "length (req_value x) = unat vl"
    using k v by (simp_all add: x)
  have "drop o1 bs = req_key x @ drop (o1 + unat kl) bs"
    using drop_split [of o1 bs "unat kl"] by (simp add: x)
  moreover have "drop o2 bs = req_value x @ drop (o2 + unat vl) bs"
    using drop_split [of o2 bs "unat vl"] by (simp add: x)
  moreover have "bs = bs ! 0 # drop 1 bs" using ne by (cases bs) simp_all
  ultimately have "bs = bs ! 0 # bytes_of_u32 kl @ req_key x @ bytes_of_u32 vl @ req_value x @
      drop (o2 + unat vl) bs"
    using s1 s2 by simp
  then have "bs = encodeRequest x @ drop (o2 + unat vl) bs"
    unfolding encodeRequest_append kl vl by (simp add: x)
  moreover have "request_wf x"
    using kl vl unsigned_less [of kl, where ?'a = nat] unsigned_less [of vl, where ?'a = nat]
    by (simp add: request_wf_def x)
  ultimately show ?thesis by blast
qed

interpretation req_codec: frame_codec encodeRequest decodeRequest request_wf
  by unfold_locales (fact decodeRequest_encode, fact decodeRequest_sound)

lemma decodeResponse_encode:
  assumes "response_wf x"
  shows "decodeResponse (encodeResponse x @ rest) y = (True, x)"
proof -
  let ?v = "resp_value x"
  let ?vl = "of_nat (length ?v) :: u32"
  let ?data = "encodeResponse x @ rest"
  have vl: "unat ?vl = length ?v"
    using assms by (simp add: response_wf_def unsigned_of_nat take_bit_eq_mod)
  have d: "?data = [status_byte (resp_status x)] @ bytes_of_u32 ?vl @ (?v @ rest)"
    by (simp add: encodeResponse_append)
  have r1: "readUint32 ?data 1 (length ?data) 0 = (True, 5, ?vl)"
    using readUint32_at [OF d, of 0] by simp
  have v: "take (length ?v) (drop 5 ?data) = ?v"
    by (simp add: encodeResponse_append)
  have n: "?data \<noteq> []" "?data ! 0 = status_byte (resp_status x)" "length ?data = 5 + length ?v + length rest"
    by (simp_all add: encodeResponse_append)
  have st: "status_of_byte (status_byte (resp_status x)) = resp_status x"
    using assms by (simp add: response_wf_def status_wf_def)
  show ?thesis
    unfolding decodeResponse_def Let_def r1 prod.case n(2) vl v st
    using n by simp
qed

lemma decodeResponse_sound:
  assumes "decodeResponse bs y = (True, x)"
  shows "response_wf x \<and> (\<exists>rest. bs = encodeResponse x @ rest)"
proof -
  obtain o1 vl where r1: "readUint32 bs 1 (length bs) 0 = (True, o1, vl)"
    and v: "o1 + unat vl \<le> length bs" and ne: "bs \<noteq> []"
    and x: "x = y\<lparr>resp_status := status_of_byte (bs ! 0), resp_value := take (unat vl) (drop o1 bs)\<rparr>"
    using assms by (auto simp: decodeResponse_def Let_def split: if_splits prod.splits)
  have vl: "length (resp_value x) = unat vl" using v by (simp add: x)
  have "drop o1 bs = resp_value x @ drop (o1 + unat vl) bs"
    using drop_split [of o1 bs "unat vl"] by (simp add: x)
  moreover have "bs = bs ! 0 # drop 1 bs" using ne by (cases bs) simp_all
  ultimately have "bs = bs ! 0 # bytes_of_u32 vl @ resp_value x @ drop (o1 + unat vl) bs"
    using readUint32_True [OF r1] by simp
  then have "bs = encodeResponse x @ drop (o1 + unat vl) bs"
    unfolding encodeResponse_append vl by (simp add: x)
  moreover have "response_wf x"
    using vl unsigned_less [of vl, where ?'a = nat] by (simp add: response_wf_def x)
  ultimately show ?thesis by blast
qed

interpretation resp_codec: frame_codec encodeResponse decodeResponse response_wf
  by unfold_locales (fact decodeResponse_encode, fact decodeResponse_sound)

section \<open>Properties\<close>

text \<open>
  C38. A request with lengths below \<open>2 ^ 32\<close> survives encoding and decoding, whatever bytes
  follow it in the buffer and whatever the out parameter held before.
\<close>

theorem request_round_trip:
  assumes "request_wf r"
  shows "decodeRequest (encodeRequest r @ rest) r0 = (True, r)"
  using assms by (rule req_codec.decode_encode)

theorem request_round_trip_witness:
  "decodeRequest (encodeRequest \<lparr>req_opcode = PUT, req_key = [1, 2], req_value = [3]\<rparr> @ [9]) Request0
     = (True, \<lparr>req_opcode = PUT, req_key = [1, 2], req_value = [3]\<rparr>)"
  by (rule request_round_trip)
     (simp add: request_wf_def opcode_wf_def opcode_of_byte_def named_opcodes_def)

text \<open>
  C39. The decoder accepts exactly the encodings: \<open>decodeRequest\<close> returns true on a buffer if and only if the
  buffer starts with the encoding of some request whose lengths fit into 32 bits. Truncated
  buffers and lengths that point beyond the end are rejected.
\<close>

theorem decode_request_accepts_exactly_encodings:
  "fst (decodeRequest bs r0) \<longleftrightarrow> (\<exists>r rest. request_wf r \<and> bs = encodeRequest r @ rest)"
proof
  assume "fst (decodeRequest bs r0)"
  then show "\<exists>r rest. request_wf r \<and> bs = encodeRequest r @ rest"
    using decodeRequest_sound [of bs r0 "snd (decodeRequest bs r0)"] by (metis prod.collapse)
next
  assume "\<exists>r rest. request_wf r \<and> bs = encodeRequest r @ rest"
  then show "fst (decodeRequest bs r0)" using req_codec.decode_encode by fastforce
qed

text \<open>
  A response with a value shorter than \<open>2 ^ 32\<close> bytes survives encoding and decoding.
\<close>

theorem response_round_trip:
  assumes "response_wf r"
  shows "decodeResponse (encodeResponse r @ rest) r0 = (True, r)"
  using assms by (rule resp_codec.decode_encode)

theorem response_round_trip_witness:
  "decodeResponse (encodeResponse \<lparr>resp_status = REDIRECT, resp_value = [3]\<rparr> @ [9]) Response0
     = (True, \<lparr>resp_status = REDIRECT, resp_value = [3]\<rparr>)"
  by (rule response_round_trip) (simp add: response_wf_def status_wf_def status_of_byte_def)

end
