(* ===== verification/Net.thy ===== *)
theory Net
  imports Prelude
begin

text \<open>
  The operating system as the program sees it. The socket calls and the clock are not part of
  the repository: they are fields of a record \<open>os\<close> over an arbitrary world type, and every
  function of the program that reaches the network takes that record. A call returns what
  the C call returns and the next world.

  \<^item> \<open>os_recv fd n\<close> returns the bytes written to the buffer; the empty list stands for a
    return value of at most 0 (end of stream, timeout or error).
  \<^item> \<open>os_connect\<close> returns the result of \<open>connect\<close> and whether \<open>errno\<close> is \<open>EINPROGRESS\<close>.
  \<^item> \<open>os_so_error\<close> returns the result of \<open>getsockopt\<close> and the \<open>SO_ERROR\<close> value.

  The loops \<open>send_data\<close> and \<open>receive_data\<close>, which the client and the server both have,
  are defined here on a file descriptor. The locales state what POSIX promises for a
  connected stream socket; the lemmas in them show that the loops transfer exactly the bytes
  asked for, however the system cuts the stream.
\<close>

record 'w os =
  os_socket :: "'w \<Rightarrow> int \<times> 'w"
  os_getfl :: "int \<Rightarrow> 'w \<Rightarrow> int \<times> 'w"
  os_setfl :: "int \<Rightarrow> int \<Rightarrow> 'w \<Rightarrow> int \<times> 'w"
  os_inet_pton :: "string \<Rightarrow> int"
  os_connect :: "int \<Rightarrow> string \<Rightarrow> u16 \<Rightarrow> 'w \<Rightarrow> (int \<times> bool) \<times> 'w"
  os_poll :: "int \<Rightarrow> int \<Rightarrow> 'w \<Rightarrow> int \<times> 'w"
  os_so_error :: "int \<Rightarrow> 'w \<Rightarrow> (int \<times> int) \<times> 'w"
  os_set_timeouts :: "int \<Rightarrow> int \<Rightarrow> 'w \<Rightarrow> 'w"
  os_send :: "int \<Rightarrow> bytes \<Rightarrow> 'w \<Rightarrow> int \<times> 'w"
  os_recv :: "int \<Rightarrow> nat \<Rightarrow> 'w \<Rightarrow> bytes \<times> 'w"
  os_close :: "int \<Rightarrow> 'w \<Rightarrow> 'w"
  os_reuseaddr :: "int \<Rightarrow> 'w \<Rightarrow> int \<times> 'w"
  os_bind :: "int \<Rightarrow> u16 \<Rightarrow> 'w \<Rightarrow> int \<times> 'w"
  os_listen :: "int \<Rightarrow> int \<Rightarrow> 'w \<Rightarrow> int \<times> 'w"
  os_shutdown :: "int \<Rightarrow> 'w \<Rightarrow> 'w"
  os_now :: "'w \<Rightarrow> int \<times> 'w"

section \<open>The two transfer loops\<close>

text \<open>\<open>while (total_sent < data.size()) { sent = send(...); if (sent <= 0) return false; ... }\<close>\<close>

function send_loop :: "'w os \<Rightarrow> int \<Rightarrow> bytes \<Rightarrow> nat \<Rightarrow> 'w \<Rightarrow> bool \<times> 'w" where
  "send_loop os fd data total_sent w =
     (if total_sent < length data
      then case os_send os fd (drop total_sent data) w of (sent, w') \<Rightarrow>
             if sent \<le> 0 then (False, w')
             else send_loop os fd data (total_sent + nat sent) w'
      else (True, w))"
  by pat_completeness auto
termination
  by (relation "measure (\<lambda>(os, fd, data, total_sent, w). length data - total_sent)") auto

declare send_loop.simps [simp del]

text \<open>
  \<open>while (total_received < expected_size) { received = recv(...); ... }\<close>. The list \<open>got\<close> is the
  filled part of the buffer; \<open>recv\<close> writes at most the number of bytes it is asked for.
\<close>

lemma recv_progress:
  "length got < n \<Longrightarrow> c \<noteq> [] \<Longrightarrow> n - length (got @ take (n - length got) c) < n - length got"
  by (cases c) auto

function recv_loop :: "'w os \<Rightarrow> int \<Rightarrow> nat \<Rightarrow> bytes \<Rightarrow> 'w \<Rightarrow> bool \<times> bytes \<times> 'w" where
  "recv_loop os fd expected_size got w =
     (if length got < expected_size
      then case os_recv os fd (expected_size - length got) w of (chunk, w') \<Rightarrow>
             if chunk = [] then (False, got, w')
             else recv_loop os fd expected_size
                    (got @ take (expected_size - length got) chunk) w'
      else (True, got, w))"
  by pat_completeness auto
termination
  by (relation "measure (\<lambda>(os, fd, n, got, w). n - length got)")
     (auto dest!: recv_progress)

declare recv_loop.simps [simp del]

text \<open>The buffer is resized to the expected size first; what was not received stays zero.\<close>

definition recv_buffer :: "'w os \<Rightarrow> int \<Rightarrow> nat \<Rightarrow> 'w \<Rightarrow> bool \<times> bytes \<times> 'w" where
  "recv_buffer os fd expected_size w =
     (case recv_loop os fd expected_size [] w of
        (ok, got, w') \<Rightarrow> (ok, got @ replicate (expected_size - length got) 0, w'))"

text \<open>What every single call keeps, the loops keep.\<close>

lemma send_loop_frame:
  assumes "\<And>d w. I w \<Longrightarrow> I (snd (os_send os fd d w))" and "I w"
  shows "I (snd (send_loop os fd d n w))"
  using assms(2)
proof (induction "length d - n" arbitrary: n w rule: less_induct)
  case less
  obtain k w' where s: "os_send os fd (drop n d) w = (k, w')" by fastforce
  have "I w'" using assms(1) [OF less.prems, of "drop n d"] s by simp
  then show ?case
    using less.hyps [of "n + nat k" w'] less.prems s by (subst send_loop.simps) auto
qed

lemma recv_loop_frame:
  assumes "\<And>n w. I w \<Longrightarrow> I (snd (os_recv os fd n w))" and "I w"
  shows "I (snd (snd (recv_loop os fd n got w)))"
  using assms(2)
proof (induction "n - length got" arbitrary: got w rule: less_induct)
  case less
  obtain c w' where s: "os_recv os fd (n - length got) w = (c, w')" by fastforce
  have w': "I w'" using assms(1) [OF less.prems, of "n - length got"] s by simp
  show ?case
  proof (cases "length got < n \<and> c \<noteq> []")
    case True
    then have "n - length (got @ take (n - length got) c) < n - length got"
      by (intro recv_progress) simp_all
    then show ?thesis using less.hyps w' s True by (subst recv_loop.simps) simp
  next
    case False
    then show ?thesis using less.prems w' s by (subst recv_loop.simps) auto
  qed
qed

section \<open>Stream sockets\<close>

locale send_os =
  fixes os :: "'w os" and fd :: int and sent :: "'w \<Rightarrow> bytes"
  assumes send_some: "d \<noteq> [] \<Longrightarrow> \<exists>k > 0. k \<le> length d \<and> fst (os_send os fd d w) = int k \<and>
      sent (snd (os_send os fd d w)) = sent w @ take k d"
begin

lemma send_loop_all:
  "n \<le> length d \<Longrightarrow>
   \<exists>w'. send_loop os fd d n w = (True, w') \<and> sent w' = sent w @ drop n d"
proof (induction "length d - n" arbitrary: n w rule: less_induct)
  case less
  show ?case
  proof (cases "n < length d")
    case True
    obtain x w1 where x: "os_send os fd (drop n d) w = (x, w1)" by fastforce
    then obtain k where k: "0 < k" "k \<le> length d - n" "x = int k" "sent w1 = sent w @ take k (drop n d)"
      using send_some [of "drop n d" w] True by auto
    have "length d - (n + k) < length d - n" "n + k \<le> length d" using k True by linarith+
    then obtain w' where "send_loop os fd d (n + k) w1 = (True, w')" "sent w' = sent w1 @ drop (n + k) d"
      using less.hyps [of "n + k" w1] by blast
    then show ?thesis
      using True x k drop_split [of n d k] by (subst send_loop.simps) auto
  next
    case False
    then show ?thesis using less.prems by (subst send_loop.simps) simp
  qed
qed

lemma send_data_all: "\<exists>w'. send_loop os fd d 0 w = (True, w') \<and> sent w' = sent w @ d"
  using send_loop_all [of 0 d w] by simp

end

locale recv_os =
  fixes os :: "'w os" and fd :: int and pending :: "'w \<Rightarrow> bytes"
  assumes recv_some: "0 < n \<Longrightarrow> pending w \<noteq> [] \<Longrightarrow>
      \<exists>k > 0. k \<le> n \<and> k \<le> length (pending w) \<and> fst (os_recv os fd n w) = take k (pending w) \<and>
        pending (snd (os_recv os fd n w)) = drop k (pending w)"
    and recv_none: "pending w = [] \<Longrightarrow>
      fst (os_recv os fd n w) = [] \<and> pending (snd (os_recv os fd n w)) = []"
begin

lemma recv_loop_enough:
  "length got \<le> n \<Longrightarrow> n - length got \<le> length (pending w) \<Longrightarrow>
   \<exists>w'. recv_loop os fd n got w = (True, got @ take (n - length got) (pending w), w') \<and>
     pending w' = drop (n - length got) (pending w)"
proof (induction "n - length got" arbitrary: got w rule: less_induct)
  case less
  let ?m = "n - length got"
  show ?case
  proof (cases "0 < ?m")
    case True
    then have ne: "pending w \<noteq> []" using less.prems by auto
    obtain c w1 where c: "os_recv os fd ?m w = (c, w1)" by fastforce
    then obtain k where k: "0 < k" "k \<le> ?m" "k \<le> length (pending w)" "c = take k (pending w)"
      "pending w1 = drop k (pending w)"
      using recv_some [OF True ne] by auto
    let ?got = "got @ take ?m c"
    have got: "?got = got @ take k (pending w)" using k by simp
    have len: "length ?got = length got + k" using k by simp
    have "n - length ?got < n - length got" "length ?got \<le> n"
      "n - length ?got \<le> length (pending w1)"
      using less.prems k len by auto
    then obtain w' where w': "recv_loop os fd n ?got w1 =
        (True, ?got @ take (n - length ?got) (pending w1), w')"
      "pending w' = drop (n - length ?got) (pending w1)"
      using less.hyps [of ?got w1] by blast
    have "take k (pending w) @ take (?m - k) (drop k (pending w)) = take ?m (pending w)"
      using k by (metis le_add_diff_inverse take_add)
    moreover have "drop (?m - k) (drop k (pending w)) = drop ?m (pending w)"
      using k by simp
    moreover have "c \<noteq> []" "length got < n" using k ne True by auto
    ultimately show ?thesis
      using w' c got len k by (subst recv_loop.simps) (simp del: drop_drop)
  next
    case False
    then show ?thesis using less.prems by (subst recv_loop.simps) simp
  qed
qed

lemma recv_loop_short:
  "length (pending w) < n - length got \<Longrightarrow> \<exists>g w'. recv_loop os fd n got w = (False, g, w')"
proof (induction "n - length got" arbitrary: got w rule: less_induct)
  case less
  let ?m = "n - length got"
  obtain c w1 where c: "os_recv os fd ?m w = (c, w1)" by fastforce
  have m: "0 < ?m" "length got < n" using less.prems by auto
  show ?case
  proof (cases "pending w = []")
    case True
    then have "c = []" using recv_none [of w ?m] c by simp
    then show ?thesis using c m by (subst recv_loop.simps) simp
  next
    case False
    then obtain k where k: "0 < k" "k \<le> ?m" "k \<le> length (pending w)" "c = take k (pending w)"
      "pending w1 = drop k (pending w)"
      using recv_some [OF m(1) False] c by auto
    let ?got = "got @ take ?m c"
    have len: "length ?got = length got + k" using k by simp
    then have "n - length ?got < n - length got" "length (pending w1) < n - length ?got"
      using less.prems k by auto
    then obtain g w' where "recv_loop os fd n ?got w1 = (False, g, w')"
      using less.hyps [of ?got w1] by blast
    moreover have "c \<noteq> []" using k False by auto
    ultimately show ?thesis using c m by (subst recv_loop.simps) simp
  qed
qed

lemma recv_buffer_enough:
  "n \<le> length (pending w) \<Longrightarrow>
   \<exists>w'. recv_buffer os fd n w = (True, take n (pending w), w') \<and> pending w' = drop n (pending w)"
  using recv_loop_enough [of "[]" n w] by (auto simp: recv_buffer_def)

lemma recv_buffer_keep:
  assumes "n \<le> length (pending w)" and inv: "\<And>n v. I v \<Longrightarrow> I (snd (os_recv os fd n v))" and "I w"
  shows "\<exists>w'. recv_buffer os fd n w = (True, take n (pending w), w') \<and>
    pending w' = drop n (pending w) \<and> I w'"
proof -
  have "I (snd (snd (recv_loop os fd n [] w)))"
    by (rule recv_loop_frame [where I = I]) (fact inv assms(3))+
  then show ?thesis
    using recv_buffer_enough [OF assms(1)] by (auto simp: recv_buffer_def split: prod.splits)
qed

lemma recv_buffer_short:
  "length (pending w) < n \<Longrightarrow> \<exists>g w'. recv_buffer os fd n w = (False, g, w')"
  using recv_loop_short [of w n "[]"] by (auto simp: recv_buffer_def)

end

text \<open>One end of a connection: reading does not touch what was sent, and the other way round.\<close>

locale conn_os = send_os os fd sent + recv_os os fd pending
  for os :: "'w os" and fd :: int and sent :: "'w \<Rightarrow> bytes" and pending :: "'w \<Rightarrow> bytes" +
  assumes recv_sent: "sent (snd (os_recv os fd n w)) = sent w"
    and send_pending: "pending (snd (os_send os fd d w)) = pending w"
begin

lemma recv_buffer_step:
  assumes "n \<le> length (pending w)"
  shows "\<exists>w'. recv_buffer os fd n w = (True, take n (pending w), w') \<and>
    pending w' = drop n (pending w) \<and> sent w' = sent w"
  by (rule recv_buffer_keep [where I = "\<lambda>v. sent v = sent w", OF assms]) (simp_all add: recv_sent)

lemma recv_buffer_fail:
  assumes "length (pending w) < n"
  shows "\<exists>g w'. recv_buffer os fd n w = (False, g, w') \<and> sent w' = sent w"
proof -
  have "sent (snd (snd (recv_loop os fd n [] w))) = sent w"
    by (rule recv_loop_frame [where I = "\<lambda>w'. sent w' = sent w"]) (simp_all add: recv_sent)
  moreover obtain g w' where "recv_buffer os fd n w = (False, g, w')"
    using recv_buffer_short [OF assms] by blast
  ultimately show ?thesis
    by (auto simp: recv_buffer_def split: prod.splits)
qed

lemma send_step:
  "\<exists>w'. send_loop os fd d 0 w = (True, w') \<and> sent w' = sent w @ d \<and> pending w' = pending w"
proof -
  have "pending (snd (send_loop os fd d 0 w)) = pending w"
    by (rule send_loop_frame [where I = "\<lambda>w'. pending w' = pending w"]) (simp_all add: send_pending)
  moreover obtain w' where "send_loop os fd d 0 w = (True, w')" "sent w' = sent w @ d"
    using send_data_all by blast
  ultimately show ?thesis by auto
qed

end

section \<open>A TCP connection with arbitrary segmentation\<close>

text \<open>
  A concrete world for one connected socket: the bytes that arrived and were not read, the bytes
  accepted for sending, and a schedule that says where the stream is cut. An exhausted
  schedule transfers one byte at a time.
\<close>

record tcp =
  rx :: bytes
  tx :: bytes
  cuts :: "nat list"

definition cut :: "nat list \<Rightarrow> nat \<Rightarrow> nat" where
  "cut cs n = (case cs of [] \<Rightarrow> 1 | c # _ \<Rightarrow> max 1 (min c n))"

definition tcp_send :: "bytes \<Rightarrow> tcp \<Rightarrow> int \<times> tcp" where
  "tcp_send d w = (let k = min (length d) (cut (cuts w) (length d))
                   in (int k, w\<lparr>tx := tx w @ take k d, cuts := tl (cuts w)\<rparr>))"

definition tcp_recv :: "nat \<Rightarrow> tcp \<Rightarrow> bytes \<times> tcp" where
  "tcp_recv n w = (let k = min n (cut (cuts w) n)
                   in (take k (rx w), w\<lparr>rx := drop k (rx w), cuts := tl (cuts w)\<rparr>))"

definition tcp_os :: "tcp os" where
  "tcp_os = \<lparr>os_socket = (\<lambda>w. (3, w)), os_getfl = (\<lambda>fd w. (0, w)), os_setfl = (\<lambda>fd f w. (0, w)),
     os_inet_pton = (\<lambda>h. 1), os_connect = (\<lambda>fd h p w. ((0, False), w)), os_poll = (\<lambda>fd t w. (1, w)),
     os_so_error = (\<lambda>fd w. ((0, 0), w)), os_set_timeouts = (\<lambda>fd s w. w),
     os_send = (\<lambda>fd. tcp_send), os_recv = (\<lambda>fd. tcp_recv), os_close = (\<lambda>fd w. w),
     os_reuseaddr = (\<lambda>fd w. (0, w)), os_bind = (\<lambda>fd p w. (0, w)), os_listen = (\<lambda>fd n w. (0, w)),
     os_shutdown = (\<lambda>fd w. w),
     os_now = (\<lambda>w. (0, w))\<rparr>"

lemma tcp_os_control [simp]:
  "os_set_timeouts tcp_os fd t w = w" "os_close tcp_os fd w = w"
  by (simp_all add: tcp_os_def)

lemma cut_pos [simp]: "0 < cut cs n"
  by (cases cs) (simp_all add: cut_def less_max_iff_disj)

lemma tcp_recv_some:
  fixes w :: tcp
  assumes "0 < n" "rx w \<noteq> []"
  shows "\<exists>k > 0. k \<le> n \<and> k \<le> length (rx w) \<and> fst (tcp_recv n w) = take k (rx w) \<and>
    rx (snd (tcp_recv n w)) = drop k (rx w)"
proof -
  let ?j = "min n (cut (cuts w) n)"
  let ?k = "min (length (rx w)) ?j"
  have "0 < ?k" "?k \<le> n" "?k \<le> length (rx w)" using assms by auto
  moreover have "take ?j (rx w) = take ?k (rx w)" "drop ?j (rx w) = drop ?k (rx w)"
    by (simp_all add: min_def)
  moreover have "fst (tcp_recv n w) = take ?j (rx w)" "rx (snd (tcp_recv n w)) = drop ?j (rx w)"
    by (simp_all add: tcp_recv_def Let_def)
  ultimately show ?thesis by metis
qed

interpretation tcp_conn: conn_os tcp_os fd tx rx for fd
proof unfold_locales
  fix d :: bytes and w :: tcp
  assume "d \<noteq> []"
  then show "\<exists>k > 0. k \<le> length d \<and> fst (os_send tcp_os fd d w) = int k \<and>
      tx (snd (os_send tcp_os fd d w)) = tx w @ take k d"
    by (intro exI [of _ "min (length d) (cut (cuts w) (length d))"])
       (simp add: tcp_os_def tcp_send_def Let_def)
next
  fix n :: nat and w :: tcp
  assume "0 < n" "rx w \<noteq> []"
  then show "\<exists>k > 0. k \<le> n \<and> k \<le> length (rx w) \<and> fst (os_recv tcp_os fd n w) = take k (rx w) \<and>
      rx (snd (os_recv tcp_os fd n w)) = drop k (rx w)"
    using tcp_recv_some [of n w] by (simp add: tcp_os_def)
qed (simp_all add: tcp_os_def tcp_send_def tcp_recv_def Let_def)

end
