(* ===== verification/Client.thy ===== *)
theory Client
  imports Protocol Net
begin

text \<open>
  The client library of \<open>src/include/client.h\<close> and \<open>src/src/client.cpp\<close>: the connection state,
  \<open>connect\<close> with its non-blocking handshake, the request/response exchange, and the five
  operations. \<open>put\<close>, \<open>get\<close> and \<open>remove\<close> follow one redirect through a temporary client;
  \<open>std::stoi\<close> on the redirect port may throw, so their result is a fault or a value.
  A destructor (\<open>disconnect\<close>) runs where the C++ scope ends.
\<close>

section \<open>Connection state\<close>

record Client =
  server_host :: string
  server_port :: u16
  socket_fd :: int
  connected :: bool

definition client_new :: "string \<Rightarrow> u16 \<Rightarrow> Client" where
  "client_new host port =
     \<lparr>server_host = host, server_port = port, socket_fd = -1, connected = False\<rparr>"

text \<open>\<open>close(socket_fd); socket_fd = -1; return false;\<close>\<close>

definition client_fail :: "'w os \<Rightarrow> Client \<Rightarrow> 'w \<Rightarrow> bool \<times> Client \<times> 'w" where
  "client_fail os c w = (False, c\<lparr>socket_fd := -1\<rparr>, os_close os (socket_fd c) w)"

abbreviation O_NONBLOCK :: int where
  "O_NONBLOCK \<equiv> 2048"

definition client_connect :: "'w os \<Rightarrow> Client \<Rightarrow> 'w \<Rightarrow> bool \<times> Client \<times> 'w" where
  "client_connect os c w =
     (if connected c then (True, c, w)
      else case os_socket os w of (fd, w1) \<Rightarrow>
      let c1 = c\<lparr>socket_fd := fd\<rparr> in
      if fd < 0 then (False, c1, w1)
      else case os_getfl os fd w1 of (flags, w2) \<Rightarrow>
      if flags < 0 then client_fail os c1 w2
      else case os_setfl os fd (flags OR O_NONBLOCK) w2 of (r, w3) \<Rightarrow>
      if r < 0 then client_fail os c1 w3
      else if os_inet_pton os (server_host c1) \<le> 0 then client_fail os c1 w3
      else case os_connect os fd (server_host c1) (server_port c1) w3 of ((connect_result, in_progress), w4) \<Rightarrow>
      if connect_result = 0
      then case os_setfl os fd flags w4 of (_, w5) \<Rightarrow> (True, c1\<lparr>connected := True\<rparr>, w5)
      else if \<not> in_progress then client_fail os c1 w4
      else case os_poll os fd 1000 w4 of (poll_result, w5) \<Rightarrow>
      if poll_result \<le> 0 then client_fail os c1 w5
      else case os_so_error os fd w5 of ((r2, socket_error), w6) \<Rightarrow>
      if r2 < 0 then client_fail os c1 w6
      else if socket_error \<noteq> 0 then client_fail os c1 w6
      else case os_setfl os fd flags w6 of (_, w7) \<Rightarrow>
      (True, c1\<lparr>connected := True\<rparr>, os_set_timeouts os fd 5 w7))"

definition client_disconnect :: "'w os \<Rightarrow> Client \<Rightarrow> 'w \<Rightarrow> Client \<times> 'w" where
  "client_disconnect os c w =
     (if connected c \<and> socket_fd c \<ge> 0
      then (c\<lparr>socket_fd := -1, connected := False\<rparr>, os_close os (socket_fd c) w)
      else (c, w))"

definition client_send_data :: "'w os \<Rightarrow> Client \<Rightarrow> bytes \<Rightarrow> 'w \<Rightarrow> bool \<times> 'w" where
  "client_send_data os c data w = send_loop os (socket_fd c) data 0 w"

definition client_receive_data :: "'w os \<Rightarrow> Client \<Rightarrow> nat \<Rightarrow> 'w \<Rightarrow> bool \<times> bytes \<times> 'w" where
  "client_receive_data os c expected_size w = recv_buffer os (socket_fd c) expected_size w"

section \<open>One exchange\<close>

text \<open>\<open>disconnect(); return false;\<close> with the response as it is.\<close>

definition client_abort :: "'w os \<Rightarrow> Client \<Rightarrow> Response \<Rightarrow> 'w \<Rightarrow> bool \<times> Response \<times> Client \<times> 'w" where
  "client_abort os c response w =
     (case client_disconnect os c w of (c', w') \<Rightarrow> (False, response, c', w'))"

definition client_send_request ::
  "'w os \<Rightarrow> Client \<Rightarrow> Request \<Rightarrow> Response \<Rightarrow> 'w \<Rightarrow> bool \<times> Response \<times> Client \<times> 'w" where
  "client_send_request os c request response w =
     (if \<not> connected c then (False, response, c, w)
      else case client_send_data os c (encodeRequest request) w of (sent, w1) \<Rightarrow>
      if \<not> sent then client_abort os c response w1
      else case client_receive_data os c 5 w1 of (ok, header, w2) \<Rightarrow>
      if \<not> ok then client_abort os c response w2
      else let value_len = u32_of_bytes (header ! 1) (header ! 2) (header ! 3) (header ! 4) in
      case (if value_len > 0 then client_receive_data os c (unat value_len) w2
            else (True, [], w2)) of (ok2, payload, w3) \<Rightarrow>
      if \<not> ok2 then client_abort os c response w3
      else case decodeResponse (header @ payload) response of (decoded, response') \<Rightarrow>
      if \<not> decoded then client_abort os c response' w3
      else (True, response', c, w3))"

text \<open>
  The redirect branch that \<open>put\<close>, \<open>get\<close> and \<open>remove\<close> share: parse \<open>host:port\<close>, connect a
  temporary client, repeat the request. \<open>None\<close> stands for the paths that end in
  \<open>return false\<close> without a response.
\<close>

definition client_follow_redirect ::
  "'w os \<Rightarrow> Request \<Rightarrow> bytes \<Rightarrow> 'w \<Rightarrow> (fault + Response option) \<times> 'w" where
  "client_follow_redirect os request target w =
     (let redirect_node = string_of_bytes target in
      case find_colon redirect_node of
        None \<Rightarrow> (Inr None, w)
      | Some colon_pos \<Rightarrow>
          (case stoi 10 (drop (Suc colon_pos) redirect_node) of
             Inl f \<Rightarrow> (Inl f, w)
           | Inr redirect_port \<Rightarrow>
               (case client_connect os (client_new (take colon_pos redirect_node) (word_of_int redirect_port)) w
                of (ok, rc, w1) \<Rightarrow>
                if \<not> ok then (Inr None, snd (client_disconnect os rc w1))
                else case client_send_request os rc request Response0 w1 of (sent, resp, rc', w2) \<Rightarrow>
                (Inr (if sent then Some resp else None), snd (client_disconnect os rc' w2)))))"

section \<open>Operations\<close>

text \<open>
  The common shape of \<open>put\<close>, \<open>get\<close> and \<open>remove\<close>: the response that decides the result, after at
  most one redirect, or \<open>None\<close> when an exchange failed.
\<close>

definition client_exchange ::
  "'w os \<Rightarrow> Client \<Rightarrow> Request \<Rightarrow> 'w \<Rightarrow> (fault + Response option) \<times> Client \<times> 'w" where
  "client_exchange os c request w =
     (case client_send_request os c request Response0 w of (sent, response, c1, w1) \<Rightarrow>
      if \<not> sent then (Inr None, c1, w1)
      else if resp_status response = REDIRECT \<and> resp_value response \<noteq> []
      then case client_follow_redirect os request (resp_value response) w1 of (r, w2) \<Rightarrow> (r, c1, w2)
      else (Inr (Some response), c1, w1))"

fun succeeded :: "fault + Response option \<Rightarrow> fault + bool" where
  "succeeded (Inl f) = Inl f"
| "succeeded (Inr None) = Inr False"
| "succeeded (Inr (Some r)) = Inr (resp_status r = SUCCESS)"

definition client_put :: "'w os \<Rightarrow> Client \<Rightarrow> string \<Rightarrow> bytes \<Rightarrow> 'w \<Rightarrow> (fault + bool) \<times> Client \<times> 'w" where
  "client_put os c key value w =
     (case client_exchange os c
             \<lparr>req_opcode = PUT, req_key = bytes_of_string key, req_value = value\<rparr> w of
        (r, c', w') \<Rightarrow> (succeeded r, c', w'))"

text \<open>\<open>get(key, value)\<close>: the out parameter is assigned only on success.\<close>

fun got_value :: "bytes \<Rightarrow> fault + Response option \<Rightarrow> fault + (bool \<times> bytes)" where
  "got_value v (Inl f) = Inl f"
| "got_value v (Inr None) = Inr (False, v)"
| "got_value v (Inr (Some r)) =
     (if resp_status r = SUCCESS then Inr (True, resp_value r) else Inr (False, v))"

definition client_get ::
  "'w os \<Rightarrow> Client \<Rightarrow> string \<Rightarrow> bytes \<Rightarrow> 'w \<Rightarrow> (fault + (bool \<times> bytes)) \<times> Client \<times> 'w" where
  "client_get os c key value w =
     (case client_exchange os c
             \<lparr>req_opcode = GET, req_key = bytes_of_string key, req_value = []\<rparr> w of
        (r, c', w') \<Rightarrow> (got_value value r, c', w'))"

definition client_remove :: "'w os \<Rightarrow> Client \<Rightarrow> string \<Rightarrow> 'w \<Rightarrow> (fault + bool) \<times> Client \<times> 'w" where
  "client_remove os c key w =
     (case client_exchange os c
             \<lparr>req_opcode = DELETE, req_key = bytes_of_string key, req_value = []\<rparr> w of
        (r, c', w') \<Rightarrow> (succeeded r, c', w'))"

definition client_ping :: "'w os \<Rightarrow> Client \<Rightarrow> 'w \<Rightarrow> bool \<times> Client \<times> 'w" where
  "client_ping os c w =
     (case client_send_request os c \<lparr>req_opcode = PING, req_key = [], req_value = []\<rparr> Response0 w of
        (sent, response, c', w') \<Rightarrow> (sent \<and> resp_status response = SUCCESS, c', w'))"

definition client_admin_shutdown :: "'w os \<Rightarrow> Client \<Rightarrow> 'w \<Rightarrow> bool \<times> Client \<times> 'w" where
  "client_admin_shutdown os c w =
     (case client_send_request os c \<lparr>req_opcode = ADMIN_SHUTDOWN, req_key = [], req_value = []\<rparr> Response0 w of
        (sent, response, c', w') \<Rightarrow> (sent \<and> resp_status response = SUCCESS, c', w'))"

section \<open>The connection state is consistent\<close>

definition client_wf :: "Client \<Rightarrow> bool" where
  "client_wf c \<longleftrightarrow> (connected c \<longrightarrow> socket_fd c \<ge> 0)"

lemmas client_state_simps =
  client_wf_def client_new_def client_fail_def client_disconnect_def client_abort_def

lemma client_wf_new [simp]: "client_wf (client_new h p)"
  by (simp add: client_state_simps)

lemma client_wf_disconnect: "client_wf c \<Longrightarrow> client_wf (fst (client_disconnect os c w))"
  by (simp add: client_state_simps)

lemma client_connect_result:
  assumes "client_connect os c w = (ok, c', w')" "client_wf c"
  shows "client_wf c' \<and> (ok \<longleftrightarrow> connected c') \<and> server_host c' = server_host c \<and>
    server_port c' = server_port c"
  using assms
  by (auto simp: client_connect_def client_state_simps Let_def split: prod.splits if_splits)

lemma client_send_request_result:
  assumes "client_send_request os c req resp w = (ok, resp', c', w')" "client_wf c"
  shows "client_wf c' \<and> (ok \<longrightarrow> c' = c \<and> connected c) \<and> (\<not> ok \<longrightarrow> \<not> connected c')"
  using assms
  by (auto simp: client_send_request_def client_state_simps Let_def split: prod.splits if_splits)

lemma client_exchange_result:
  assumes "client_exchange os c req w = (r, c', w')" "client_wf c"
  shows "client_wf c' \<and> (c' = c \<or> \<not> connected c' \<and> r = Inr None)"
  using assms client_send_request_result [of os c req Response0 w]
  by (auto simp: client_exchange_def split: prod.splits if_splits)

section \<open>An exchange over a stream\<close>

text \<open>
  If what the peer has sent by the time the request is written is one response, possibly followed by
  other bytes, then the exchange returns that response, leaves exactly the other bytes unread and
  keeps whatever reading keeps.
\<close>

context recv_os
begin

lemma exchange_reply:
  assumes c: "connected c" "socket_fd c = fd"
    and w1: "send_loop os fd (encodeRequest req) 0 w = (True, w1)"
    and reply: "pending w1 = encodeResponse r @ rest"
    and r: "response_wf r"
    and inv: "\<And>n v. I v \<Longrightarrow> I (snd (os_recv os fd n v))" and "I w1"
  shows "\<exists>w'. client_send_request os c req resp0 w = (True, r, c, w') \<and> pending w' = rest \<and> I w'"
proof -
  let ?n = "length (resp_value r)"
  let ?l = "of_nat ?n :: u32"
  have l: "unat ?l = ?n" using r by (simp add: response_wf_def unsigned_of_nat take_bit_eq_mod)
  have p1: "pending w1 = status_byte (resp_status r) # bytes_of_u32 ?l @ resp_value r @ rest"
    using reply by (simp add: encodeResponse_append)
  let ?h = "status_byte (resp_status r) # bytes_of_u32 ?l"
  obtain w2 where w2: "recv_buffer os fd 5 w1 = (True, ?h, w2)" "pending w2 = resp_value r @ rest" "I w2"
    using recv_buffer_keep [of 5 w1 I, OF _ inv \<open>I w1\<close>] p1 by auto
  obtain a b d e where h: "bytes_of_u32 ?l = [a, b, d, e]" "u32_of_bytes a b d e = ?l"
    using bytes_of_u32_cases by blast
  have vl: "u32_of_bytes (?h ! 1) (?h ! 2) (?h ! 3) (?h ! 4) = ?l"
    using h by simp
  obtain w3 where w3: "recv_buffer os fd ?n w2 = (True, resp_value r, w3)" "pending w3 = rest" "I w3"
    using recv_buffer_keep [of ?n w2 I, OF _ inv w2(3)] w2(2) by auto
  have dec: "decodeResponse (?h @ resp_value r) resp0 = (True, r)"
    using resp_codec.round_trip [OF r, of resp0] by (simp add: encodeResponse_append)
  show ?thesis
  proof (cases "?n = 0")
    case True
    then have "?l = 0" by simp
    then show ?thesis
      using c w1 w2 dec vl True
      by (auto simp: client_send_request_def client_send_data_def client_receive_data_def Let_def)
  next
    case False
    then have "0 < ?l" using l by (metis unat_eq_zero word_gt_0)
    then show ?thesis
      using c w1 w2(1) w3 dec vl l
      by (simp add: client_send_request_def client_send_data_def client_receive_data_def Let_def)
  qed
qed

end

text \<open>
  Whatever the operating system does, a get leaves the client consistent (a connected client
  has a valid descriptor), and either leaves the connection untouched or drops it; when it drops it,
  the call returns false and does not assign the out parameter.
\<close>

theorem client_get_connection:
  assumes "client_wf c"
  shows "case client_get os c key v w of (r, c', w') \<Rightarrow>
    client_wf c' \<and> (c' = c \<or> \<not> connected c' \<and> r = Inr (False, v))"
proof -
  obtain r c' w' where e: "client_exchange os c
      \<lparr>req_opcode = GET, req_key = bytes_of_string key, req_value = []\<rparr> w = (r, c', w')"
    by (metis prod_cases3)
  then show ?thesis
    using client_exchange_result [OF e assms] by (auto simp: client_get_def)
qed

theorem client_get_connection_witness:
  "case client_get tcp_os (client_new ''h'' 1) ''k'' [7] \<lparr>rx = [], tx = [], cuts = []\<rparr> of (r, c', w') \<Rightarrow>
    client_wf c' \<and> (c' = client_new ''h'' 1 \<or> \<not> connected c' \<and> r = Inr (False, [7]))"
  using client_get_connection [of "client_new ''h'' 1" "[7]" tcp_os "''k''" "\<lparr>rx = [], tx = [], cuts = []\<rparr>"]
  by simp

end
