(* ===== verification/Storage.thy ===== *)
theory Storage
  imports Prelude
begin

text \<open>
  The in-memory store of \<open>src/include/storage.h\<close> and \<open>src/src/storage.cpp\<close>. Every method
  holds the store's mutex from its first to its last statement and calls nothing that takes
  it again, so a method is one atomic step and the model is a function from the old state
  to the result and the new state. Out parameters are passed in and returned. The locale
  \<open>kv_store\<close> is the contract the servers rely on; the abstraction is the finite map
  \<open>storage_map\<close>.
\<close>

section \<open>State and operations\<close>

record Storage =
  data :: "(string \<times> bytes) list"

definition storage_empty :: Storage where
  "storage_empty = \<lparr>data = []\<rparr>"

definition storage_get :: "Storage \<Rightarrow> string \<Rightarrow> bytes \<Rightarrow> bool \<times> bytes" where
  "storage_get s key value =
     (case map_of (data s) key of Some v \<Rightarrow> (True, v) | None \<Rightarrow> (False, value))"

definition storage_put :: "Storage \<Rightarrow> string \<Rightarrow> bytes \<Rightarrow> Storage" where
  "storage_put s key value = s\<lparr>data := AList.update key value (data s)\<rparr>"

definition storage_remove :: "Storage \<Rightarrow> string \<Rightarrow> bool \<times> Storage" where
  "storage_remove s key =
     (map_of (data s) key \<noteq> None, s\<lparr>data := AList.delete key (data s)\<rparr>)"

definition storage_clear :: "Storage \<Rightarrow> Storage" where
  "storage_clear s = s\<lparr>data := []\<rparr>"

definition storage_size :: "Storage \<Rightarrow> nat" where
  "storage_size s = length (data s)"

definition storage_exists :: "Storage \<Rightarrow> string \<Rightarrow> bool" where
  "storage_exists s key \<longleftrightarrow> map_of (data s) key \<noteq> None"

fun push_keys :: "(string \<times> bytes) list \<Rightarrow> string list \<Rightarrow> string list" where
  "push_keys [] keys = keys"
| "push_keys (p # ps) keys = push_keys ps (keys @ [fst p])"

definition storage_get_all_keys :: "Storage \<Rightarrow> string list" where
  "storage_get_all_keys s = push_keys (data s) []"

definition storage_get_all_data :: "Storage \<Rightarrow> (string \<times> bytes) list" where
  "storage_get_all_data s = data s"

fun collect_matching ::
  "(string \<Rightarrow> bool) \<Rightarrow> (string \<times> bytes) list \<Rightarrow> (string \<times> bytes) list \<Rightarrow> (string \<times> bytes) list" where
  "collect_matching predicate [] result = result"
| "collect_matching predicate (p # ps) result =
     collect_matching predicate ps
       (if predicate (fst p) then AList.update (fst p) (snd p) result else result)"

definition storage_get_keys_in_range :: "Storage \<Rightarrow> (string \<Rightarrow> bool) \<Rightarrow> (string \<times> bytes) list" where
  "storage_get_keys_in_range s predicate = collect_matching predicate (data s) []"

section \<open>Invariant and abstraction\<close>

definition storage_wf :: "Storage \<Rightarrow> bool" where
  "storage_wf s \<longleftrightarrow> umap_wf (data s)"

definition storage_map :: "Storage \<Rightarrow> string \<rightharpoonup> bytes" where
  "storage_map s = map_of (data s)"

lemma storage_wf_empty [simp]: "storage_wf storage_empty"
  by (simp add: storage_wf_def storage_empty_def)

lemma storage_wf_put [simp]: "storage_wf s \<Longrightarrow> storage_wf (storage_put s k v)"
  by (simp add: storage_wf_def storage_put_def)

lemma storage_wf_remove [simp]: "storage_wf s \<Longrightarrow> storage_wf (snd (storage_remove s k))"
  by (simp add: storage_wf_def storage_remove_def)

lemma storage_wf_clear [simp]: "storage_wf (storage_clear s)"
  by (simp add: storage_wf_def storage_clear_def)

lemma storage_map_empty [simp]: "storage_map storage_empty = Map.empty"
  by (simp add: storage_map_def storage_empty_def)

lemma storage_map_put [simp]: "storage_map (storage_put s k v) = (storage_map s)(k \<mapsto> v)"
  by (simp add: storage_map_def storage_put_def)

lemma storage_map_remove [simp]: "storage_map (snd (storage_remove s k)) = (storage_map s)(k := None)"
  by (simp add: storage_map_def storage_remove_def)

lemma storage_remove_found [simp]: "fst (storage_remove s k) \<longleftrightarrow> storage_map s k \<noteq> None"
  by (simp add: storage_map_def storage_remove_def)

lemma storage_map_clear [simp]: "storage_map (storage_clear s) = Map.empty"
  by (simp add: storage_map_def storage_clear_def)

lemma storage_get_map:
  "storage_get s k v = (case storage_map s k of Some w \<Rightarrow> (True, w) | None \<Rightarrow> (False, v))"
  by (simp add: storage_get_def storage_map_def)

lemma storage_exists_map: "storage_exists s k \<longleftrightarrow> k \<in> dom (storage_map s)"
  by (auto simp: storage_exists_def storage_map_def)

lemma storage_size_map: "storage_wf s \<Longrightarrow> storage_size s = card (dom (storage_map s))"
  using distinct_card [of "map fst (data s)"]
  by (simp add: storage_size_def storage_wf_def storage_map_def dom_map_of_conv_image_fst)

lemma push_keys_map: "push_keys ps keys = keys @ map fst ps"
  by (induction ps arbitrary: keys) simp_all

lemma set_storage_get_all_keys: "set (storage_get_all_keys s) = dom (storage_map s)"
  by (simp add: storage_get_all_keys_def push_keys_map storage_map_def dom_map_of_conv_image_fst)

lemma distinct_storage_get_all_keys: "storage_wf s \<Longrightarrow> distinct (storage_get_all_keys s)"
  by (simp add: storage_get_all_keys_def push_keys_map storage_wf_def)

lemma map_of_storage_get_all_data: "map_of (storage_get_all_data s) = storage_map s"
  by (simp add: storage_get_all_data_def storage_map_def)

lemma umap_wf_collect_matching: "umap_wf r \<Longrightarrow> umap_wf (collect_matching P ps r)"
  by (induction ps arbitrary: r) auto

lemma map_of_collect_matching:
  "umap_wf ps \<Longrightarrow> fst ` set ps \<inter> fst ` set r = {} \<Longrightarrow>
   map_of (collect_matching P ps r) k =
     (if P k \<and> map_of ps k \<noteq> None then map_of ps k else map_of r k)"
proof (induction ps arbitrary: r)
  case Nil
  then show ?case by simp
next
  case (Cons p ps)
  let ?r = "if P (fst p) then AList.update (fst p) (snd p) r else r"
  have "fst ` set ?r \<subseteq> insert (fst p) (fst ` set r)"
    by (auto simp: AList.dom_update)
  moreover have "fst ` set ps \<inter> insert (fst p) (fst ` set r) = {}"
    using Cons.prems by simp
  ultimately have "fst ` set ps \<inter> fst ` set ?r = {}" by blast
  then have "map_of (collect_matching P ps ?r) k =
      (if P k \<and> map_of ps k \<noteq> None then map_of ps k else map_of ?r k)"
    using Cons by simp
  moreover have "map_of ps (fst p) = None"
    using Cons.prems(1) by (simp add: map_of_eq_None_iff)
  ultimately show ?case by (cases p) auto
qed

lemma map_of_storage_get_keys_in_range:
  "storage_wf s \<Longrightarrow>
   map_of (storage_get_keys_in_range s P) k = (if P k then storage_map s k else None)"
  by (cases "map_of (data s) k")
    (simp_all add: storage_get_keys_in_range_def map_of_collect_matching storage_wf_def storage_map_def)

lemma umap_wf_storage_get_keys_in_range: "umap_wf (storage_get_keys_in_range s P)"
  by (simp add: storage_get_keys_in_range_def umap_wf_collect_matching)

section \<open>The contract of a key-value store\<close>

datatype kv_update = Put_op string bytes | Remove_op string

fun update_key :: "kv_update \<Rightarrow> string" where
  "update_key (Put_op k v) = k"
| "update_key (Remove_op k) = k"

fun update_value :: "kv_update \<Rightarrow> bytes option" where
  "update_value (Put_op k v) = Some v"
| "update_value (Remove_op k) = None"

fun kv_apply ::
  "('s \<Rightarrow> string \<Rightarrow> bytes \<Rightarrow> 's) \<Rightarrow> ('s \<Rightarrow> string \<Rightarrow> bool \<times> 's) \<Rightarrow> 's \<Rightarrow> kv_update \<Rightarrow> 's" where
  "kv_apply put remove s (Put_op k v) = put s k v"
| "kv_apply put remove s (Remove_op k) = snd (remove s k)"

locale kv_store =
  fixes get :: "'s \<Rightarrow> string \<Rightarrow> bytes \<Rightarrow> bool \<times> bytes"
    and put :: "'s \<Rightarrow> string \<Rightarrow> bytes \<Rightarrow> 's"
    and remove :: "'s \<Rightarrow> string \<Rightarrow> bool \<times> 's"
    and lookup :: "'s \<Rightarrow> string \<rightharpoonup> bytes"
    and invar :: "'s \<Rightarrow> bool"
  assumes get_lookup: "invar s \<Longrightarrow> get s k v = (case lookup s k of Some w \<Rightarrow> (True, w) | None \<Rightarrow> (False, v))"
    and lookup_put: "invar s \<Longrightarrow> lookup (put s k v) = (lookup s)(k \<mapsto> v)"
    and lookup_remove: "invar s \<Longrightarrow> lookup (snd (remove s k)) = (lookup s)(k := None)"
    and remove_found: "invar s \<Longrightarrow> fst (remove s k) \<longleftrightarrow> lookup s k \<noteq> None"
    and invar_put: "invar s \<Longrightarrow> invar (put s k v)"
    and invar_remove: "invar s \<Longrightarrow> invar (snd (remove s k))"
begin

lemma lookup_apply_update:
  "invar s \<Longrightarrow> lookup (kv_apply put remove s u) = (lookup s)(update_key u := update_value u)"
  by (cases u) (simp_all add: lookup_put lookup_remove)

lemma invar_run: "invar s \<Longrightarrow> invar (foldl (kv_apply put remove) s us)"
proof (induction us arbitrary: s)
  case Nil
  then show ?case by simp
next
  case (Cons u us)
  then show ?case by (cases u) (simp_all add: invar_put invar_remove)
qed

lemma get_last_write:
  assumes "invar s"
  shows "get (foldl (kv_apply put remove) s us) k v =
     (case find (\<lambda>u. update_key u = k) (rev us) of
        Some u \<Rightarrow> (case update_value u of Some w \<Rightarrow> (True, w) | None \<Rightarrow> (False, v))
      | None \<Rightarrow> get s k v)"
proof (induction us rule: rev_induct)
  case Nil
  then show ?case by simp
next
  case (snoc u us)
  let ?s = "foldl (kv_apply put remove) s us"
  have "invar ?s" "invar (kv_apply put remove ?s u)"
    using invar_run [OF assms, of us] invar_run [OF assms, of "us @ [u]"] by simp_all
  then show ?case using snoc by (simp add: get_lookup lookup_apply_update)
qed

end

interpretation store: kv_store storage_get storage_put storage_remove storage_map storage_wf
  by unfold_locales (simp_all add: storage_get_map)

text \<open>
  After any sequence of puts and removes on an empty store, \<open>get\<close> of a key returns the value of
  the last put of that key if no remove of it follows, and otherwise reports that the key is
  absent and leaves the out parameter as it was.
\<close>

theorem storage_get_last_write:
  "storage_get (foldl (kv_apply storage_put storage_remove) storage_empty us) k v =
     (case find (\<lambda>u. update_key u = k) (rev us) of
        Some (Put_op k' x) \<Rightarrow> (True, x)
      | Some (Remove_op k') \<Rightarrow> (False, v)
      | None \<Rightarrow> (False, v))"
  unfolding store.get_last_write [OF storage_wf_empty]
  by (auto simp: storage_get_map split: option.splits kv_update.splits)

text \<open>
  On every store that puts and removes can build, \<open>get_all_keys\<close> lists each present key
  exactly once, \<open>size\<close> counts the present keys, and \<open>get_keys_in_range\<close> returns exactly the
  entries whose key satisfies the predicate.
\<close>

theorem storage_enumeration:
  fixes us :: "kv_update list"
  defines "s \<equiv> foldl (kv_apply storage_put storage_remove) storage_empty us"
  shows "distinct (storage_get_all_keys s) \<and> set (storage_get_all_keys s) = dom (storage_map s) \<and>
    storage_size s = card (dom (storage_map s)) \<and>
    map_of (storage_get_keys_in_range s P) = (\<lambda>k. if P k then storage_map s k else None)"
proof -
  have "storage_wf s" unfolding s_def by (intro store.invar_run storage_wf_empty)
  then show ?thesis
    by (simp add: distinct_storage_get_all_keys set_storage_get_all_keys storage_size_map
        map_of_storage_get_keys_in_range fun_eq_iff)
qed

end
