(* ===== verification/Server.thy ===== *)
theory Server
  imports Client Storage
begin

text \<open>
  The base server of \<open>src/include/server.h\<close> and \<open>src/src/server.cpp\<close>: start and stop of the
  listening socket, the connection loop \<open>handle_client\<close> that cuts the byte stream into
  requests, and the request switch on the local store. \<open>process_request\<close> is virtual, so the
  connection loop takes it as an argument: a program on the server's state and the world.
  Two things of the code are kept as they are: the size \<open>key_len + 4\<close> is computed in
  32 bits, and the four length bytes behind the key are read without a bounds check.
\<close>

section \<open>State\<close>

record Server =
  storage :: Storage
  server_fd :: int
  running :: bool
  port :: u16

definition server_new :: "u16 \<Rightarrow> Server" where
  "server_new p = \<lparr>storage = storage_empty, server_fd = -1, running = False, port = p\<rparr>"

section \<open>Start and stop\<close>

definition setup_server_socket :: "'w os \<Rightarrow> (Server \<times> 'w, unit) prog" where
  "setup_server_socket os = (\<lambda>(s, w).
     case os_socket os w of (fd, w1) \<Rightarrow>
     let s1 = s\<lparr>server_fd := fd\<rparr> in
     if fd < 0 then (Inl Runtime_error, (s1, w1))
     else case os_reuseaddr os fd w1 of (r, w2) \<Rightarrow>
     if r < 0 then (Inl Runtime_error, (s1, os_close os fd w2))
     else case os_bind os fd (port s1) w2 of (r2, w3) \<Rightarrow>
     if r2 < 0 then (Inl Runtime_error, (s1, os_close os fd w3))
     else case os_listen os fd 128 w3 of (r3, w4) \<Rightarrow>
     if r3 < 0 then (Inl Runtime_error, (s1, os_close os fd w4))
     else (Inr (), (s1, w4)))"

definition server_start :: "'w os \<Rightarrow> (Server \<times> 'w, unit) prog" where
  "server_start os = (\<lambda>(s, w).
     if running s then (Inr (), (s, w))
     else bindP (setup_server_socket os)
            (\<lambda>_. modP (\<lambda>(s1, w1). (s1\<lparr>running := True\<rparr>, w1))) (s, w))"

definition server_stop :: "'w os \<Rightarrow> (Server \<times> 'w, unit) prog" where
  "server_stop os = (\<lambda>(s, w).
     if \<not> running s then (Inr (), (s, w))
     else let s1 = s\<lparr>running := False\<rparr> in
       if server_fd s1 \<ge> 0
       then (Inr (), (s1, os_close os (server_fd s1) (os_shutdown os (server_fd s1) w)))
       else (Inr (), (s1, w)))"

section \<open>Requests on the local store\<close>

definition server_dispatch :: "Storage \<Rightarrow> Request \<Rightarrow> Response \<times> Storage" where
  "server_dispatch st request =
     (let response = Response0; key = string_of_bytes (req_key request) in
      case req_opcode request of
        GET \<Rightarrow> (case storage_get st key [] of (found, v) \<Rightarrow>
                if found then (response\<lparr>resp_status := SUCCESS, resp_value := v\<rparr>, st)
                else (response\<lparr>resp_status := KEY_NOT_FOUND\<rparr>, st))
      | PUT \<Rightarrow> (response\<lparr>resp_status := SUCCESS\<rparr>, storage_put st key (req_value request))
      | DELETE \<Rightarrow> (case storage_remove st key of (removed, st') \<Rightarrow>
                if removed then (response\<lparr>resp_status := SUCCESS\<rparr>, st')
                else (response\<lparr>resp_status := KEY_NOT_FOUND\<rparr>, st'))
      | PING \<Rightarrow> (response\<lparr>resp_status := SUCCESS\<rparr>, st)
      | _ \<Rightarrow> (response\<lparr>resp_status := ERROR\<rparr>, st))"

definition server_send_data :: "'w os \<Rightarrow> int \<Rightarrow> bytes \<Rightarrow> 'w \<Rightarrow> bool \<times> 'w" where
  "server_send_data os fd bs w = send_loop os fd bs 0 w"

definition server_receive_data :: "'w os \<Rightarrow> int \<Rightarrow> nat \<Rightarrow> 'w \<Rightarrow> bool \<times> bytes \<times> 'w" where
  "server_receive_data os fd expected_size w = recv_buffer os fd expected_size w"

definition server_process_request :: "'w os \<Rightarrow> int \<Rightarrow> Request \<Rightarrow> (Server \<times> 'w, unit) prog" where
  "server_process_request os client_fd request = (\<lambda>(s, w).
     case server_dispatch (storage s) request of (response, st) \<Rightarrow>
     case server_send_data os client_fd (encodeResponse response) w of (_, w') \<Rightarrow>
     (Inr (), (s\<lparr>storage := st\<rparr>, w')))"

section \<open>The connection loop\<close>

definition header_u32 :: "bytes \<Rightarrow> nat \<Rightarrow> u32" where
  "header_u32 b i = u32_of_bytes (b ! i) (b ! (i + 1)) (b ! (i + 2)) (b ! (i + 3))"

text \<open>
  One iteration: \<open>Inr True\<close> to go on, \<open>Inr False\<close> for \<open>break\<close>. The indices
  \<open>key_len, \<dots>, key_len + 3\<close> are \<open>uint32_t\<close> as in the code.
\<close>

definition serve_one ::
  "'w os \<Rightarrow> (int \<Rightarrow> Request \<Rightarrow> ('s \<times> 'w, unit) prog) \<Rightarrow> int \<Rightarrow> ('s \<times> 'w, bool) prog" where
  "serve_one os process fd = (\<lambda>(s, w).
     case server_receive_data os fd 5 w of (ok, initial_header, w1) \<Rightarrow>
     if \<not> ok then (Inr False, (s, w1))
     else let key_len = header_u32 initial_header 1 in
     case server_receive_data os fd (unat (key_len + 4)) w1 of (ok2, kv, w2) \<Rightarrow>
     if \<not> ok2 then (Inr False, (s, w2))
     else if \<not> (unat key_len < length kv \<and> unat (key_len + 1) < length kv \<and>
                unat (key_len + 2) < length kv \<and> unat (key_len + 3) < length kv)
     then (Inl Out_of_bounds, (s, w2))
     else let value_len = u32_of_bytes (kv ! unat key_len) (kv ! unat (key_len + 1))
                            (kv ! unat (key_len + 2)) (kv ! unat (key_len + 3)) in
     case (if value_len > 0 then server_receive_data os fd (unat value_len) w2
           else (True, [], w2)) of (ok3, value_data, w3) \<Rightarrow>
     if \<not> ok3 then (Inr False, (s, w3))
     else case decodeRequest (initial_header @ kv @ value_data) Request0 of (decoded, request) \<Rightarrow>
     if decoded then bindP (process fd request) (\<lambda>_. ret True) (s, w3)
     else case server_send_data os fd (encodeResponse \<lparr>resp_status = ERROR, resp_value = []\<rparr>) w3 of
            (_, w4) \<Rightarrow> (Inr False, (s, w4)))"

text \<open>
  \<open>while (true)\<close>, with a bound on the iterations: an exhausted bound is the fault
  \<open>Out_of_fuel\<close>, so a result without a fault is a result of the loop.
\<close>

fun client_loop ::
  "'w os \<Rightarrow> (int \<Rightarrow> Request \<Rightarrow> ('s \<times> 'w, unit) prog) \<Rightarrow> int \<Rightarrow> nat \<Rightarrow> ('s \<times> 'w, unit) prog" where
  "client_loop os process fd 0 = raise Out_of_fuel"
| "client_loop os process fd (Suc fuel) =
     bindP (serve_one os process fd)
       (\<lambda>continue. if continue then client_loop os process fd fuel else ret ())"

definition handle_client ::
  "'w os \<Rightarrow> (int \<Rightarrow> Request \<Rightarrow> ('s \<times> 'w, unit) prog) \<Rightarrow> nat \<Rightarrow> int \<Rightarrow> ('s \<times> 'w, unit) prog" where
  "handle_client os process fuel fd =
     bindP (modP (\<lambda>(s, w). (s, os_set_timeouts os fd 5 w)))
       (\<lambda>_. bindP (client_loop os process fd fuel)
         (\<lambda>_. modP (\<lambda>(s, w). (s, os_close os fd w))))"

section \<open>The dispatch as a key-value server\<close>

lemma server_dispatch_get:
  "req_opcode r = GET \<Longrightarrow> server_dispatch st r =
     (case storage_map st (string_of_bytes (req_key r)) of
        Some v \<Rightarrow> (\<lparr>resp_status = SUCCESS, resp_value = v\<rparr>, st)
      | None \<Rightarrow> (\<lparr>resp_status = KEY_NOT_FOUND, resp_value = []\<rparr>, st))"
  by (simp add: server_dispatch_def Response0_def storage_get_map split: option.splits)

lemma server_dispatch_put:
  "req_opcode r = PUT \<Longrightarrow> server_dispatch st r =
     (\<lparr>resp_status = SUCCESS, resp_value = []\<rparr>, storage_put st (string_of_bytes (req_key r)) (req_value r))"
  by (simp add: server_dispatch_def Response0_def)

lemma server_dispatch_delete:
  "req_opcode r = DELETE \<Longrightarrow> server_dispatch st r =
     (\<lparr>resp_status = (if storage_map st (string_of_bytes (req_key r)) = None then KEY_NOT_FOUND else SUCCESS),
       resp_value = []\<rparr>, snd (storage_remove st (string_of_bytes (req_key r))))"
  by (cases "storage_remove st (string_of_bytes (req_key r))")
     (use storage_remove_found [of st "string_of_bytes (req_key r)"] in
       \<open>auto simp: server_dispatch_def Response0_def Let_def simp del: storage_remove_found\<close>)

lemma server_dispatch_wf:
  assumes "storage_wf st"
  shows "storage_wf (snd (server_dispatch st r))"
proof (cases "req_opcode r")
  case DELETE
  then show ?thesis using assms by (simp add: server_dispatch_delete)
next
  case GET
  then show ?thesis using assms by (simp add: server_dispatch_get split: option.splits)
qed (use assms in \<open>simp_all add: server_dispatch_def\<close>)

definition store_values_small :: "Storage \<Rightarrow> bool" where
  "store_values_small st \<longleftrightarrow> (\<forall>k v. storage_map st k = Some v \<longrightarrow> length v < 2 ^ 32)"

lemma server_dispatch_response_wf:
  "store_values_small st \<Longrightarrow> response_wf (fst (server_dispatch st r))"
  by (auto simp: server_dispatch_def Let_def response_wf_def Response0_def store_values_small_def
      storage_get_map split: OpCode.splits prod.splits option.splits)

lemma server_dispatch_values_small:
  assumes "store_values_small st" "length (req_value r) < 2 ^ 32"
  shows "store_values_small (snd (server_dispatch st r))"
proof (cases "req_opcode r")
  case PUT
  then show ?thesis using assms by (auto simp: server_dispatch_put store_values_small_def)
next
  case DELETE
  then show ?thesis using assms by (auto simp: server_dispatch_delete store_values_small_def)
qed (use assms in \<open>auto simp: server_dispatch_def storage_get_map store_values_small_def
      split: option.splits\<close>)

section \<open>Framing\<close>

text \<open>
  The shortest statement about a frame: its three parts, as the connection loop reads them.
  \<open>frame_wf\<close> adds to \<open>request_wf\<close> that \<open>key_len + 4\<close> does not wrap.
\<close>

definition frame_wf :: "Request \<Rightarrow> bool" where
  "frame_wf r \<longleftrightarrow> request_wf r \<and> length (req_key r) + 4 < 2 ^ 32"

lemma unat_len_u32: "n < 2 ^ 32 \<Longrightarrow> unat (of_nat n :: u32) = n"
  by (simp add: unsigned_of_nat take_bit_eq_mod)

lemma frame_offsets:
  assumes "frame_wf r" "j \<le> 4"
  shows "unat (of_nat (length (req_key r)) + of_nat j :: u32) = length (req_key r) + j"
  using unat_len_u32 [of "length (req_key r) + j"] assms by (simp add: frame_wf_def)

lemma frame_key_part:
  fixes r :: Request
  defines "k \<equiv> of_nat (length (req_key r)) :: u32" and "v \<equiv> of_nat (length (req_value r)) :: u32"
  assumes "frame_wf r"
  shows "unat k = length (req_key r)" "unat (k + 4) = length (req_key r) + 4"
    "unat k < length (req_key r @ bytes_of_u32 v)"
    "unat (k + 1) < length (req_key r @ bytes_of_u32 v)"
    "unat (k + 2) < length (req_key r @ bytes_of_u32 v)"
    "unat (k + 3) < length (req_key r @ bytes_of_u32 v)"
    "u32_of_bytes ((req_key r @ bytes_of_u32 v) ! unat k) ((req_key r @ bytes_of_u32 v) ! unat (k + 1))
       ((req_key r @ bytes_of_u32 v) ! unat (k + 2)) ((req_key r @ bytes_of_u32 v) ! unat (k + 3)) = v"
proof -
  note o = frame_offsets [OF assms(3), of 0] frame_offsets [OF assms(3), of 1]
    frame_offsets [OF assms(3), of 2] frame_offsets [OF assms(3), of 3] frame_offsets [OF assms(3), of 4]
  have u: "unat k = length (req_key r)" "unat (k + 1) = length (req_key r) + 1"
    "unat (k + 2) = length (req_key r) + 2" "unat (k + 3) = length (req_key r) + 3"
    "unat (k + 4) = length (req_key r) + 4"
    using o by (simp_all add: k_def)
  obtain a b c d where v: "bytes_of_u32 v = [a, b, c, d]" "u32_of_bytes a b c d = v"
    using bytes_of_u32_cases by blast
  show "unat k = length (req_key r)" "unat (k + 4) = length (req_key r) + 4" by (fact u)+
  show "unat k < length (req_key r @ bytes_of_u32 v)" "unat (k + 1) < length (req_key r @ bytes_of_u32 v)"
    "unat (k + 2) < length (req_key r @ bytes_of_u32 v)" "unat (k + 3) < length (req_key r @ bytes_of_u32 v)"
    using u by simp_all
  show "u32_of_bytes ((req_key r @ bytes_of_u32 v) ! unat k) ((req_key r @ bytes_of_u32 v) ! unat (k + 1))
       ((req_key r @ bytes_of_u32 v) ! unat (k + 2)) ((req_key r @ bytes_of_u32 v) ! unat (k + 3)) = v"
    unfolding u v(1) using v(2) by (simp add: nth_append)
qed

lemma header_u32_frame: "header_u32 (b # bytes_of_u32 x) 1 = x"
  using bytes_of_u32_cases [of x] by (auto simp: header_u32_def)

fun transcript :: "('s \<Rightarrow> 'r \<Rightarrow> 's) \<Rightarrow> ('s \<Rightarrow> 'r \<Rightarrow> bytes) \<Rightarrow> 's \<Rightarrow> 'r list \<Rightarrow> bytes" where
  "transcript step reply s [] = []"
| "transcript step reply s (r # rs) = reply s r @ transcript step reply (step s r) rs"

lemma transcript_append:
  "transcript step reply s (rs @ rs') =
     transcript step reply s rs @ transcript step reply (foldl step s rs) rs'"
  by (induction rs arbitrary: s) simp_all

text \<open>One iteration, once its three reads succeed and the frame decodes.\<close>

lemma serve_one_reads:
  assumes "recv_buffer os fd 5 w = (True, h, w1)"
    and "header_u32 h 1 = k"
    and "recv_buffer os fd (unat (k + 4)) w1 = (True, kv, w2)"
    and "unat k < length kv" "unat (k + 1) < length kv" "unat (k + 2) < length kv" "unat (k + 3) < length kv"
    and "u32_of_bytes (kv ! unat k) (kv ! unat (k + 1)) (kv ! unat (k + 2)) (kv ! unat (k + 3)) = v"
    and "(if v > 0 then recv_buffer os fd (unat v) w2 else (True, [], w2)) = (True, d, w3)"
    and "decodeRequest (h @ kv @ d) Request0 = (True, r)"
    and "process fd r (s, w3) = (Inr (), (s', w4))"
  shows "serve_one os process fd (s, w) = (Inr True, (s', w4))"
proof -
  have "bindP (process fd r) (\<lambda>_. ret True) (s, w3) = (Inr True, (s', w4))"
    using assms(11) by (simp add: bindP_def)
  then show ?thesis
    unfolding serve_one_def server_receive_data_def Let_def prod.case
    by (simp only: assms(1-10) prod.case simp_thms if_True if_False)
qed

context conn_os
begin

lemma serve_one_wrapped_length:
  assumes "pending w = b # bytes_of_u32 k @ rest" "2 ^ 32 - 4 \<le> unat k" "unat (k + 4) \<le> length rest"
  shows "\<exists>w'. serve_one os process fd (s, w) = (Inl Out_of_bounds, (s, w'))"
proof -
  obtain w1 where w1: "recv_buffer os fd 5 w = (True, b # bytes_of_u32 k, w1)" "pending w1 = rest"
    using recv_buffer_step [of 5 w] assms(1) by auto
  obtain w2 where w2: "recv_buffer os fd (unat (k + 4)) w1 = (True, take (unat (k + 4)) rest, w2)"
    using recv_buffer_step [of "unat (k + 4)" w1] w1(2) assms(3) by auto
  have "unat (k + 4) = (unat k + 4) mod 2 ^ 32" by (simp add: unat_word_ariths)
  also have "\<dots> = unat k + 4 - 2 ^ 32"
    using assms(2) unsigned_less [of k, where ?'a = nat] by (simp add: mod_if)
  finally have "unat (k + 4) \<le> unat k" using unsigned_less [of k, where ?'a = nat] by simp
  then have "\<not> unat k < length (take (unat (k + 4)) rest)" by simp
  then show ?thesis
    using w1(1) w2
    by (simp add: serve_one_def server_receive_data_def header_u32_frame [simplified] Let_def
        del: length_take)
qed

end

locale request_server = conn_os os fd sent pending
  for os :: "'w os" and fd :: int and sent :: "'w \<Rightarrow> bytes" and pending :: "'w \<Rightarrow> bytes" +
  fixes process :: "int \<Rightarrow> Request \<Rightarrow> ('s \<times> 'w, unit) prog"
    and step :: "'s \<Rightarrow> Request \<Rightarrow> 's"
    and reply :: "'s \<Rightarrow> Request \<Rightarrow> bytes"
    and inv :: "'s \<Rightarrow> bool" and good :: "Request \<Rightarrow> bool"
  assumes process_reply: "inv s \<Longrightarrow> good r \<Longrightarrow> \<exists>w'. process fd r (s, w) = (Inr (), (step s r, w')) \<and>
      sent w' = sent w @ reply s r \<and> pending w' = pending w"
    and step_inv: "inv s \<Longrightarrow> good r \<Longrightarrow> inv (step s r)"
begin

lemma serve_one_frame:
  assumes s: "inv s" "good r" and r: "frame_wf r" and p: "pending w = encodeRequest r @ rest"
  shows "\<exists>w'. serve_one os process fd (s, w) = (Inr True, (step s r, w')) \<and>
    pending w' = rest \<and> sent w' = sent w @ reply s r"
proof -
  define k where "k = (of_nat (length (req_key r)) :: u32)"
  define v where "v = (of_nat (length (req_value r)) :: u32)"
  let ?h = "opcode_byte (req_opcode r) # bytes_of_u32 k"
  let ?kv = "req_key r @ bytes_of_u32 v"
  note part = frame_key_part [OF r, folded k_def v_def]
  have p0: "pending w = ?h @ ?kv @ req_value r @ rest"
    using p by (simp add: encodeRequest_append k_def v_def)
  obtain w1 where w1: "recv_buffer os fd 5 w = (True, ?h, w1)"
    "pending w1 = ?kv @ req_value r @ rest" "sent w1 = sent w"
    using recv_buffer_step [of 5 w] p0 by auto
  obtain w2 where w2: "recv_buffer os fd (unat (k + 4)) w1 = (True, ?kv, w2)"
    "pending w2 = req_value r @ rest" "sent w2 = sent w"
    using recv_buffer_step [of "unat (k + 4)" w1] w1 part(2) by auto
  have hd: "header_u32 ?h 1 = k" by (rule header_u32_frame)
  have v: "unat v = length (req_value r)"
    using r by (simp add: v_def frame_wf_def request_wf_def unat_len_u32)
  have "\<exists>w3. (if v > 0 then recv_buffer os fd (unat v) w2 else (True, [], w2)) = (True, req_value r, w3)
      \<and> pending w3 = rest \<and> sent w3 = sent w"
    using recv_buffer_step [of "unat v" w2] w2 v by (cases "v = 0") (auto simp: word_gt_0)
  then obtain w3 where w3: "(if v > 0 then recv_buffer os fd (unat v) w2 else (True, [], w2)) = (True, req_value r, w3)"
    "pending w3 = rest" "sent w3 = sent w" by blast
  have dec: "decodeRequest (?h @ ?kv @ req_value r) Request0 = (True, r)"
    using req_codec.round_trip [of r Request0] r
    by (simp add: encodeRequest_append k_def v_def frame_wf_def)
  obtain w4 where w4: "process fd r (s, w3) = (Inr (), (step s r, w4))"
    "sent w4 = sent w3 @ reply s r" "pending w4 = pending w3"
    using process_reply [OF s] by blast
  have "serve_one os process fd (s, w) = (Inr True, (step s r, w4))"
    by (rule serve_one_reads [where process = process, OF w1(1) hd w2(1) part(3-7) w3(1) dec w4(1)])
  then show ?thesis using w3 w4 by simp
qed

lemma serve_one_end:
  assumes "length (pending w) < 5"
  shows "\<exists>w'. serve_one os process fd (s, w) = (Inr False, (s, w')) \<and> sent w' = sent w"
  using recv_buffer_fail [OF assms] by (auto simp: serve_one_def server_receive_data_def)

lemma client_loop_frames:
  assumes "inv s" "\<forall>r \<in> set rs. frame_wf r \<and> good r" "pending w = concat (map encodeRequest rs)" "length rs < fuel"
  shows "\<exists>w'. client_loop os process fd fuel (s, w) = (Inr (), (foldl step s rs, w')) \<and>
    sent w' = sent w @ transcript step reply s rs"
  using assms
proof (induction rs arbitrary: s w fuel)
  case Nil
  then obtain n where n: "fuel = Suc n" by (cases fuel) auto
  obtain w' where "serve_one os process fd (s, w) = (Inr False, (s, w'))" "sent w' = sent w"
    using serve_one_end [of w s] Nil by auto
  then show ?case using n by (simp add: bindP_def)
next
  case (Cons r rs)
  then obtain n where n: "fuel = Suc n" "length rs < n" by (cases fuel) auto
  obtain w1 where w1: "serve_one os process fd (s, w) = (Inr True, (step s r, w1))"
    "pending w1 = concat (map encodeRequest rs)" "sent w1 = sent w @ reply s r"
    using serve_one_frame [of s r w "concat (map encodeRequest rs)"] Cons.prems by auto
  obtain w' where "client_loop os process fd n (step s r, w1) = (Inr (), (foldl step (step s r) rs, w'))"
    "sent w' = sent w1 @ transcript step reply (step s r) rs"
    using Cons.IH [of "step s r" w1 n] step_inv [of s r] Cons.prems(1,2) w1(2) n(2) by auto
  then show ?case using n w1 by (simp add: bindP_def)
qed

text \<open>
  A whole connection: the timeouts are set, every request is answered in order, the socket is
  closed. More fuel than requests is enough.
\<close>

lemma handle_client_frames:
  assumes "inv s" "\<forall>r \<in> set rs. frame_wf r \<and> good r" "length rs < fuel"
    and "pending (os_set_timeouts os fd 5 w) = concat (map encodeRequest rs)"
  shows "\<exists>w'. handle_client os process fuel fd (s, w) = (Inr (), (foldl step s rs, os_close os fd w')) \<and>
    sent w' = sent (os_set_timeouts os fd 5 w) @ transcript step reply s rs"
  using client_loop_frames [OF assms(1,2,4,3)] by (auto simp: handle_client_def bindP_def)

end

section \<open>The base server as a request server\<close>

definition server_step :: "Server \<Rightarrow> Request \<Rightarrow> Server" where
  "server_step s r = s\<lparr>storage := snd (server_dispatch (storage s) r)\<rparr>"

definition server_reply :: "Server \<Rightarrow> Request \<Rightarrow> bytes" where
  "server_reply s r = encodeResponse (fst (server_dispatch (storage s) r))"

interpretation base_server: request_server tcp_os fd tx rx "server_process_request tcp_os"
    server_step server_reply "\<lambda>s. True" "\<lambda>r. True" for fd
proof unfold_locales
  fix r :: Request and s :: Server and w :: tcp
  show "\<exists>w'. server_process_request tcp_os fd r (s, w) = (Inr (), (server_step s r, w')) \<and>
      tx w' = tx w @ server_reply s r \<and> rx w' = rx w"
    using tcp_conn.send_step [of fd "server_reply s r" w]
    by (auto simp: server_process_request_def server_send_data_def server_step_def server_reply_def
        split: prod.splits)
qed simp

text \<open>
  C15. The connection loop cuts a stream of requests correctly: whatever the segmentation of the
  stream, \<open>handle_client\<close> applies the requests in order to the store and writes exactly
  their responses in order, then returns. The bound on the iterations is the number of requests
  plus one.
\<close>

theorem handle_client_pipeline:
  assumes "\<forall>r \<in> set rs. frame_wf r"
  shows "\<exists>w. handle_client tcp_os (server_process_request tcp_os) (length rs + 1) fd
      (s, \<lparr>rx = concat (map encodeRequest rs), tx = [], cuts = cs\<rparr>) = (Inr (), (foldl server_step s rs, w)) \<and>
    tx w = transcript server_step server_reply s rs"
  using base_server.handle_client_frames [where s = s and rs = rs and fuel = "length rs + 1" and fd = fd and w =
      "\<lparr>rx = concat (map encodeRequest rs), tx = [], cuts = cs\<rparr>"] assms
  by simp

theorem handle_client_pipeline_witness:
  "\<exists>w. handle_client tcp_os (server_process_request tcp_os) 2 5
      (server_new 8001, \<lparr>rx = encodeRequest \<lparr>req_opcode = PING, req_key = [], req_value = []\<rparr>, tx = [], cuts = [2, 3]\<rparr>) =
    (Inr (), (server_new 8001, w)) \<and> tx w = [0, 0, 0, 0, 0]"
proof -
  let ?r = "\<lparr>req_opcode = PING, req_key = [], req_value = []\<rparr>"
  have "frame_wf ?r"
    by (simp add: frame_wf_def request_wf_def opcode_wf_def opcode_of_byte_def named_opcodes_def)
  moreover have "server_step (server_new 8001) ?r = server_new 8001"
    by (simp add: server_step_def server_dispatch_def server_new_def)
  moreover have "server_reply (server_new 8001) ?r = [0, 0, 0, 0, 0]"
    by (simp add: server_reply_def server_dispatch_def server_new_def Response0_def
        encodeResponse_append bytes_of_u32_def)
  ultimately show ?thesis
    using handle_client_pipeline [of "[?r]" 5 "server_new 8001" "[2, 3]"] by (simp add: numeral_2_eq_2)
qed

text \<open>
  C40. A key length of \<open>2^32 - 4\<close> or more makes \<open>key_len + 4\<close> wrap to 0, 1, 2 or 3, and the loop reads
  the value length beyond the end of the buffer: the five bytes \<open>x FF FF FF FC\<close> are enough.
\<close>

theorem handle_client_wrapped_length:
  assumes "2 ^ 32 - 4 \<le> unat k" "unat (k + 4) \<le> length rest"
  shows "\<exists>w. serve_one tcp_os process fd (s, \<lparr>rx = b # bytes_of_u32 k @ rest, tx = [], cuts = cs\<rparr>) =
    (Inl Out_of_bounds, (s, w))"
  using tcp_conn.serve_one_wrapped_length [of "\<lparr>rx = b # bytes_of_u32 k @ rest, tx = [], cuts = cs\<rparr>" b k rest]
    assms by simp

theorem handle_client_wrapped_length_witness:
  "\<exists>w. serve_one tcp_os (server_process_request tcp_os) 5
      (server_new 8001, \<lparr>rx = [1, 0xFF, 0xFF, 0xFF, 0xFC], tx = [], cuts = []\<rparr>) =
    (Inl Out_of_bounds, (server_new 8001, w))"
  using handle_client_wrapped_length [of "0xFFFFFFFC" "[]" "server_process_request tcp_os" 5 "server_new 8001" 1 "[]"]
  by (simp add: bytes_of_u32_def)

end
