(* ===== verification/Session.thy ===== *)
theory Session
  imports Server
begin

text \<open>
  Clients and base servers joined by a network. The world holds the servers by endpoint, the one
  connection that is open, what the client has written to it, how much of the server's output it
  has read, a schedule of segment sizes and a clock. The server's output and state on a
  connection are those of \<open>client_loop\<close> on the bytes written so far, under a schedule of its own; closing
  the connection leaves the server in that state. Connecting to an endpoint without a server fails.
  A session is a sequence of client calls on one connection; the theorem compares its results
  with a map.
\<close>

section \<open>The network\<close>

type_synonym endpoint = "string \<times> u16"

record net =
  nodes :: "endpoint \<Rightarrow> Server option"
  conn :: "endpoint option"
  up :: bytes
  taken :: nat
  segs :: "nat list"
  clock :: int

definition run_server :: "Server \<Rightarrow> nat list \<Rightarrow> bytes \<Rightarrow> Server \<times> bytes" where
  "run_server s cs u =
     (case client_loop tcp_os (server_process_request tcp_os) 4 (Suc (length u))
             (s, \<lparr>rx = u, tx = [], cuts = cs\<rparr>) of (_, (s', w)) \<Rightarrow> (s', tx w))"

definition net_output :: "nat list \<Rightarrow> net \<Rightarrow> bytes" where
  "net_output cs w =
     (case conn w of
        None \<Rightarrow> []
      | Some e \<Rightarrow> (case nodes w e of None \<Rightarrow> [] | Some s \<Rightarrow> snd (run_server s cs (up w))))"

definition unread :: "nat list \<Rightarrow> net \<Rightarrow> bytes" where
  "unread cs w = drop (taken w) (net_output cs w)"

definition net_connect :: "string \<Rightarrow> u16 \<Rightarrow> net \<Rightarrow> (int \<times> bool) \<times> net" where
  "net_connect h p w =
     (case nodes w (h, p) of
        None \<Rightarrow> ((-1, False), w)
      | Some s \<Rightarrow> ((0, False), w\<lparr>conn := Some (h, p), up := [], taken := 0\<rparr>))"

definition net_send :: "bytes \<Rightarrow> net \<Rightarrow> int \<times> net" where
  "net_send d w = (let k = min (length d) (cut (segs w) (length d))
                    in (int k, w\<lparr>up := up w @ take k d, segs := tl (segs w)\<rparr>))"

definition net_recv :: "nat list \<Rightarrow> nat \<Rightarrow> net \<Rightarrow> bytes \<times> net" where
  "net_recv cs n w = (let c = take (min n (cut (segs w) n)) (unread cs w)
                         in (c, w\<lparr>taken := taken w + length c, segs := tl (segs w)\<rparr>))"

definition net_close :: "nat list \<Rightarrow> net \<Rightarrow> net" where
  "net_close cs w =
     (case conn w of
        None \<Rightarrow> w
      | Some e \<Rightarrow>
          (case nodes w e of
             None \<Rightarrow> w\<lparr>conn := None\<rparr>
           | Some s \<Rightarrow> w\<lparr>conn := None, nodes := (nodes w)(e \<mapsto> fst (run_server s cs (up w)))\<rparr>))"

definition net_os :: "nat list \<Rightarrow> net os" where
  "net_os cs =
    \<lparr>os_socket = (\<lambda>w. (3, w)), os_getfl = (\<lambda>fd w. (0, w)), os_setfl = (\<lambda>fd f w. (0, w)),
     os_inet_pton = (\<lambda>h. 1), os_connect = (\<lambda>fd. net_connect), os_poll = (\<lambda>fd t w. (1, w)),
     os_so_error = (\<lambda>fd w. ((0, 0), w)), os_set_timeouts = (\<lambda>fd t w. w),
     os_send = (\<lambda>fd. net_send), os_recv = (\<lambda>fd. net_recv cs), os_close = (\<lambda>fd. net_close cs),
     os_reuseaddr = (\<lambda>fd w. (0, w)), os_bind = (\<lambda>fd p w. (0, w)), os_listen = (\<lambda>fd n w. (0, w)),
     os_shutdown = (\<lambda>fd w. w), os_now = (\<lambda>w. (clock w, w))\<rparr>"

lemma net_os_select [simp]:
  "os_send (net_os cs) fd = net_send" "os_recv (net_os cs) fd = net_recv cs"
  "os_close (net_os cs) fd = net_close cs" "os_now (net_os cs) = (\<lambda>w. (clock w, w))"
  by (simp_all add: net_os_def)

interpretation net_send: send_os "net_os cs" fd up for cs fd
proof unfold_locales
  fix d :: bytes and w :: net
  assume "d \<noteq> []"
  then show "\<exists>k > 0. k \<le> length d \<and> fst (os_send (net_os cs) fd d w) = int k \<and>
      up (snd (os_send (net_os cs) fd d w)) = up w @ take k d"
    by (intro exI [of _ "min (length d) (cut (segs w) (length d))"])
       (simp add: net_send_def Let_def)
qed

lemma output_taken [simp]:
  "net_output cs (w\<lparr>taken := t, segs := ss\<rparr>) = net_output cs w"
  "net_output cs (w\<lparr>segs := ss\<rparr>) = net_output cs w"
  "net_output cs (w\<lparr>taken := t\<rparr>) = net_output cs w"
  by (simp_all add: net_output_def cong: option.case_cong)

interpretation net_recv: recv_os "net_os cs" fd "unread cs" for cs fd
proof unfold_locales
  fix n :: nat and w :: net
  assume "0 < n" "unread cs w \<noteq> []"
  then show "\<exists>k > 0. k \<le> n \<and> k \<le> length (unread cs w) \<and>
      fst (os_recv (net_os cs) fd n w) = take k (unread cs w) \<and>
      unread cs (snd (os_recv (net_os cs) fd n w)) = drop k (unread cs w)"
    by (intro exI [of _ "min (length (unread cs w)) (min n (cut (segs w) n))"])
       (auto simp: net_recv_def unread_def Let_def min_def add.commute)
qed (auto simp: net_recv_def unread_def Let_def)

section \<open>Sessions\<close>

datatype call = Put_call string bytes | Get_call string | Remove_call string

fun call_request :: "call \<Rightarrow> Request" where
  "call_request (Put_call k v) = \<lparr>req_opcode = PUT, req_key = bytes_of_string k, req_value = v\<rparr>"
| "call_request (Get_call k) = \<lparr>req_opcode = GET, req_key = bytes_of_string k, req_value = []\<rparr>"
| "call_request (Remove_call k) = \<lparr>req_opcode = DELETE, req_key = bytes_of_string k, req_value = []\<rparr>"

text \<open>The result of a call: the returned flag and, for \<open>get\<close>, the out parameter (initially empty).\<close>

fun client_call :: "'w os \<Rightarrow> Client \<Rightarrow> call \<Rightarrow> 'w \<Rightarrow> (fault + bool \<times> bytes) \<times> Client \<times> 'w" where
  "client_call os c (Put_call k v) w =
     (case client_put os c k v w of (r, c', w') \<Rightarrow> (map_sum id (\<lambda>ok. (ok, [])) r, c', w'))"
| "client_call os c (Get_call k) w = client_get os c k [] w"
| "client_call os c (Remove_call k) w =
     (case client_remove os c k w of (r, c', w') \<Rightarrow> (map_sum id (\<lambda>ok. (ok, [])) r, c', w'))"

fun client_session :: "'w os \<Rightarrow> Client \<Rightarrow> call list \<Rightarrow> 'w \<Rightarrow> (fault + bool \<times> bytes) list \<times> Client \<times> 'w" where
  "client_session os c [] w = ([], c, w)"
| "client_session os c (x # xs) w =
     (case client_call os c x w of (r, c1, w1) \<Rightarrow>
      case client_session os c1 xs w1 of (rs, c2, w2) \<Rightarrow> (r # rs, c2, w2))"

text \<open>The specification: the same calls on a map.\<close>

fun map_call :: "(string \<rightharpoonup> bytes) \<Rightarrow> call \<Rightarrow> (bool \<times> bytes) \<times> (string \<rightharpoonup> bytes)" where
  "map_call m (Put_call k v) = ((True, []), m(k \<mapsto> v))"
| "map_call m (Get_call k) = ((case m k of Some v \<Rightarrow> (True, v) | None \<Rightarrow> (False, [])), m)"
| "map_call m (Remove_call k) = ((m k \<noteq> None, []), m(k := None))"

fun map_session :: "(string \<rightharpoonup> bytes) \<Rightarrow> call list \<Rightarrow> (bool \<times> bytes) list" where
  "map_session m [] = []"
| "map_session m (x # xs) = fst (map_call m x) # map_session (snd (map_call m x)) xs"

fun call_small :: "call \<Rightarrow> bool" where
  "call_small (Put_call k v) \<longleftrightarrow> length k + 4 < 2 ^ 32 \<and> length v < 2 ^ 32"
| "call_small (Get_call k) \<longleftrightarrow> length k + 4 < 2 ^ 32"
| "call_small (Remove_call k) \<longleftrightarrow> length k + 4 < 2 ^ 32"

definition response_result :: "call \<Rightarrow> Response \<Rightarrow> bool \<times> bytes" where
  "response_result x r =
     (resp_status r = SUCCESS,
      case x of Get_call k \<Rightarrow> (if resp_status r = SUCCESS then resp_value r else []) | _ \<Rightarrow> [])"

section \<open>One call\<close>

lemma client_call_exchange:
  assumes "client_send_request os c (call_request x) Response0 w = (True, r, c', w')"
    and "resp_status r \<noteq> REDIRECT"
  shows "client_call os c x w = (Inr (response_result x r), c', w')"
  using assms
  by (cases x)
     (simp_all add: client_put_def client_get_def client_remove_def client_exchange_def response_result_def)

lemma call_frame_wf: "call_small x \<Longrightarrow> frame_wf (call_request x)"
  by (cases x) (simp_all add: frame_wf_def request_wf_def opcode_wf_def opcode_of_byte_def named_opcodes_def)

lemma dispatch_call_map:
  "storage_map (snd (server_dispatch st (call_request x))) = snd (map_call (storage_map st) x)"
proof (cases x)
  case (Put_call k v)
  then show ?thesis by (simp add: server_dispatch_put)
next
  case (Get_call k)
  then show ?thesis by (simp add: server_dispatch_get split: option.split)
next
  case (Remove_call k)
  then show ?thesis by (simp add: server_dispatch_delete)
qed

lemma dispatch_call_result:
  "response_result x (fst (server_dispatch st (call_request x))) = fst (map_call (storage_map st) x)"
proof (cases x)
  case (Put_call k v)
  then show ?thesis by (simp add: server_dispatch_put response_result_def)
next
  case (Get_call k)
  then show ?thesis by (simp add: server_dispatch_get response_result_def split: option.split)
next
  case (Remove_call k)
  then show ?thesis by (simp add: server_dispatch_delete response_result_def)
qed

lemma dispatch_no_redirect: "resp_status (fst (server_dispatch st r)) \<noteq> REDIRECT"
  by (auto simp: server_dispatch_def Let_def Response0_def split: OpCode.splits prod.splits)

section \<open>The server on a connection\<close>

lemma length_frames: "length rs \<le> length (concat (map encodeRequest rs))"
proof (induction rs)
  case (Cons r rs)
  have "1 \<le> length (encodeRequest r)" by (simp add: encodeRequest_append)
  then show ?case using Cons by simp
qed simp

lemma run_server_frames:
  assumes "\<forall>r \<in> set rs. frame_wf r"
  shows "run_server s cs (concat (map encodeRequest rs)) =
    (foldl server_step s rs, transcript server_step server_reply s rs)"
  using base_server.client_loop_frames [where s = s and rs = rs and fd = 4
      and w = "\<lparr>rx = concat (map encodeRequest rs), tx = [], cuts = cs\<rparr>"
      and fuel = "Suc (length (concat (map encodeRequest rs)))"] assms length_frames [of rs]
  by (auto simp: run_server_def)

section \<open>The session invariant\<close>

text \<open>
  The world is connected to \<open>e\<close>, whose server was \<open>s\<close>; all requests so far are written and answered,
  and every answer is read. Everything else is as in the world \<open>w0\<close>.
\<close>

definition same_net :: "net \<Rightarrow> net \<Rightarrow> bool" where
  "same_net w0 w \<longleftrightarrow> nodes w = nodes w0 \<and> conn w = conn w0 \<and> clock w = clock w0"

definition quiet :: "endpoint \<Rightarrow> Server \<Rightarrow> Request list \<Rightarrow> net \<Rightarrow> bool" where
  "quiet e s rs w \<longleftrightarrow> conn w = Some e \<and> nodes w e = Some s \<and> up w = concat (map encodeRequest rs) \<and>
     taken w = length (transcript server_step server_reply s rs)"

lemma net_send_keeps:
  "taken (snd (send_loop (net_os cs) fd d n w)) = taken w \<and> same_net w (snd (send_loop (net_os cs) fd d n w))"
  by (rule send_loop_frame [where I = "\<lambda>v. taken v = taken w \<and> same_net w v"])
     (auto simp: net_send_def Let_def same_net_def)

definition reading :: "nat list \<Rightarrow> net \<Rightarrow> net \<Rightarrow> bool" where
  "reading cs w0 w \<longleftrightarrow> up w = up w0 \<and> taken w \<le> length (net_output cs w0) \<and> same_net w0 w"

lemma reading_output: "reading cs w0 w \<Longrightarrow> net_output cs w = net_output cs w0"
  by (simp add: reading_def net_output_def same_net_def cong: option.case_cong)

lemma reading_recv: "reading cs w0 w \<Longrightarrow> reading cs w0 (snd (os_recv (net_os cs) fd n w))"
  using reading_output [of cs w0 w]
  by (auto simp: reading_def net_recv_def unread_def Let_def same_net_def)

lemma exchange_quiet:
  assumes q: "quiet e s rs w" and rs: "\<forall>r \<in> set (rs @ [r]). frame_wf r"
    and c: "connected c" "socket_fd c = fd"
    and wf: "response_wf (fst (server_dispatch (storage (foldl server_step s rs)) r))"
  shows "\<exists>w'. client_send_request (net_os cs) c r Response0 w =
      (True, fst (server_dispatch (storage (foldl server_step s rs)) r), c, w') \<and>
      quiet e s (rs @ [r]) w' \<and> same_net w w'"
proof -
  let ?u = "concat (map encodeRequest (rs @ [r]))"
  obtain w1 where w1: "send_loop (net_os cs) fd (encodeRequest r) 0 w = (True, w1)" "up w1 = ?u"
    using net_send.send_data_all [of cs fd "encodeRequest r" w] q by (auto simp: quiet_def)
  have t: "taken w1 = length (transcript server_step server_reply s rs)" "same_net w w1"
    using net_send_keeps [of cs fd "encodeRequest r" 0 w] w1(1) q by (simp_all add: quiet_def)
  have o: "net_output cs w1 = transcript server_step server_reply s (rs @ [r])"
    using t(2) q w1(2) run_server_frames [OF rs, of s cs] by (simp add: net_output_def same_net_def quiet_def)
  have "unread cs w1 = server_reply (foldl server_step s rs) r @ []"
    unfolding unread_def o t(1) by (simp add: transcript_append)
  moreover have "reading cs w1 w1"
    using t o by (simp add: reading_def same_net_def transcript_append)
  ultimately obtain w' where w': "client_send_request (net_os cs) c r Response0 w =
      (True, fst (server_dispatch (storage (foldl server_step s rs)) r), c, w')"
    "unread cs w' = []" "reading cs w1 w'"
    using net_recv.exchange_reply [where I = "reading cs w1", OF c w1(1) _ wf reading_recv]
    by (auto simp: server_reply_def)
  then have "quiet e s (rs @ [r]) w'" "same_net w w'"
    using o q t(2) w1(2) reading_output [OF w'(3)]
    by (simp_all add: quiet_def reading_def unread_def same_net_def)
  then show ?thesis using w'(1) by blast
qed

lemma call_value_small: "call_small x \<Longrightarrow> length (req_value (call_request x)) < 2 ^ 32"
  by (cases x) simp_all

lemma call_quiet:
  assumes q: "quiet e s rs w" and rs: "\<forall>r \<in> set rs. frame_wf r" and c: "connected c"
    and small: "store_values_small (storage (foldl server_step s rs))" "call_small x"
  shows "\<exists>w'. client_call (net_os cs) c x w =
      (Inr (fst (map_call (storage_map (storage (foldl server_step s rs))) x)), c, w') \<and>
      quiet e s (rs @ [call_request x]) w' \<and> same_net w w'"
proof -
  let ?r = "call_request x" and ?st = "storage (foldl server_step s rs)"
  have "\<forall>r \<in> set (rs @ [?r]). frame_wf r" using rs call_frame_wf [OF small(2)] by auto
  then obtain w1 where w1: "client_send_request (net_os cs) c ?r Response0 w =
      (True, fst (server_dispatch ?st ?r), c, w1)" "quiet e s (rs @ [?r]) w1" "same_net w w1"
    using exchange_quiet [OF q _ c refl server_dispatch_response_wf [OF small(1)]] by blast
  then show ?thesis
    using client_call_exchange [OF w1(1) dispatch_no_redirect] by (simp add: dispatch_call_result)
qed

lemma step_values_small:
  assumes "store_values_small (storage (foldl server_step s rs))" "call_small x"
  shows "store_values_small (storage (foldl server_step s (rs @ [call_request x])))"
  using server_dispatch_values_small [OF assms(1) call_value_small [OF assms(2)]]
  by (simp add: server_step_def)

lemma step_storage_map:
  "storage_map (storage (foldl server_step s (rs @ [call_request x]))) =
     snd (map_call (storage_map (storage (foldl server_step s rs))) x)"
  by (simp add: server_step_def dispatch_call_map)

lemma session_from:
  assumes "quiet e s rs w" "\<forall>r \<in> set rs. frame_wf r" "connected c"
    and "store_values_small (storage (foldl server_step s rs))" "\<forall>x \<in> set xs. call_small x"
  shows "\<exists>w'. client_session (net_os cs) c xs w =
    (map Inr (map_session (storage_map (storage (foldl server_step s rs))) xs), c, w')"
  using assms
proof (induction xs arbitrary: rs w)
  case Nil
  then show ?case by simp
next
  case (Cons x xs)
  have x: "call_small x" and xs: "\<forall>x \<in> set xs. call_small x" using Cons.prems(5) by simp_all
  obtain w1 where w1: "client_call (net_os cs) c x w =
      (Inr (fst (map_call (storage_map (storage (foldl server_step s rs))) x)), c, w1)"
    "quiet e s (rs @ [call_request x]) w1"
    using call_quiet [OF Cons.prems(1-4) x] by blast
  have "\<forall>r \<in> set (rs @ [call_request x]). frame_wf r"
    using Cons.prems(2) call_frame_wf [OF x] by auto
  then obtain w' where "client_session (net_os cs) c xs w1 =
      (map Inr (map_session (storage_map (storage (foldl server_step s (rs @ [call_request x])))) xs), c, w')"
    using Cons.IH [OF w1(2) _ Cons.prems(3) step_values_small [OF Cons.prems(4) x] xs] by blast
  then show ?case using w1(1) by (simp only: client_session.simps prod.case map_session.simps
        list.map step_storage_map) simp
qed

lemma net_connect_quiet:
  assumes "nodes w (host, p) = Some s"
  shows "\<exists>c w1. client_connect (net_os cs) (client_new host p) w = (True, c, w1) \<and> connected c \<and>
    socket_fd c = 3 \<and> quiet (host, p) s [] w1 \<and> nodes w1 = nodes w \<and> clock w1 = clock w"
  using assms
  by (simp add: client_connect_def client_new_def net_os_def net_connect_def quiet_def)

lemma net_connect_refused:
  assumes "nodes w (host, p) = None" "conn w = None"
  shows "\<exists>c. client_connect (net_os cs) (client_new host p) w = (False, c, w) \<and> \<not> connected c"
  using assms
  by (simp add: client_connect_def client_new_def client_fail_def net_os_def net_connect_def net_close_def)

lemma net_close_quiet:
  assumes "quiet e s rs w" "\<forall>r \<in> set rs. frame_wf r"
  shows "nodes (net_close cs w) = (nodes w)(e \<mapsto> foldl server_step s rs)"
    "conn (net_close cs w) = None" "clock (net_close cs w) = clock w"
  using assms(1) run_server_frames [OF assms(2), of s cs] by (simp_all add: quiet_def net_close_def)

text \<open>One connection with one call on it, as the tools, the replication manager and the forwarding nodes make it.\<close>

lemma net_single_call:
  assumes "nodes w (host, p) = Some s" "store_values_small (storage s)" "call_small x"
  shows "\<exists>c w1 w2 w3. client_connect (net_os cs) (client_new host p) w = (True, c, w1) \<and>
    client_call (net_os cs) c x w1 = (Inr (fst (map_call (storage_map (storage s)) x)), c, w2) \<and>
    client_disconnect (net_os cs) c w2 = (c\<lparr>socket_fd := -1, connected := False\<rparr>, w3) \<and>
    nodes w3 = (nodes w)((host, p) \<mapsto> server_step s (call_request x)) \<and> conn w3 = None \<and> clock w3 = clock w"
proof -
  obtain c w1 where c: "client_connect (net_os cs) (client_new host p) w = (True, c, w1)"
    "connected c" "socket_fd c = 3" "quiet (host, p) s [] w1" "nodes w1 = nodes w" "clock w1 = clock w"
    using net_connect_quiet [OF assms(1)] by blast
  obtain w2 where w2: "client_call (net_os cs) c x w1 = (Inr (fst (map_call (storage_map (storage s)) x)), c, w2)"
    "quiet (host, p) s [call_request x] w2" "same_net w1 w2"
    using call_quiet [OF c(4) _ c(2), of x cs] assms(2,3) by auto
  have f: "\<forall>r \<in> set [call_request x]. frame_wf r" using call_frame_wf [OF assms(3)] by simp
  note cl = net_close_quiet [OF w2(2) f, of cs]
  have "client_disconnect (net_os cs) c w2 = (c\<lparr>socket_fd := -1, connected := False\<rparr>, net_close cs w2)"
    using c(2,3) by (simp add: client_disconnect_def)
  then show ?thesis using c(1,5,6) w2 cl
    by (intro exI [of _ c] exI [of _ w1] exI [of _ w2] exI [of _ "net_close cs w2"]) (simp add: same_net_def)
qed

text \<open>
  C1. A client that connects to a base server and makes any sequence of put, get and remove calls
  gets exactly the results the same calls have on a map that starts as the server's store,
  whatever segment sizes the network chooses in either direction. Keys must be shorter than
  \<open>2^32 - 4\<close> bytes and values shorter than \<open>2^32\<close> bytes, so that the 32-bit length fields hold them.
\<close>

theorem client_server_session:
  assumes "nodes w (host, p) = Some s" "store_values_small (storage s)" "\<forall>x \<in> set xs. call_small x"
  shows "\<exists>c w1 w2. client_connect (net_os cs) (client_new host p) w = (True, c, w1) \<and>
    client_session (net_os cs) c xs w1 = (map Inr (map_session (storage_map (storage s)) xs), c, w2)"
proof -
  obtain c w1 where c: "client_connect (net_os cs) (client_new host p) w = (True, c, w1)"
    "connected c" "quiet (host, p) s [] w1"
    using net_connect_quiet [OF assms(1)] by blast
  then show ?thesis using session_from [OF c(3) _ c(2), of xs cs] assms by auto
qed

definition example_net :: net where
  "example_net = \<lparr>nodes = [(''127.0.0.1'', 8001) \<mapsto> server_new 8001, (''127.0.0.1'', 8002) \<mapsto> server_new 8002],
     conn = None, up = [], taken = 0, segs = [3, 1], clock = 5\<rparr>"

theorem client_server_session_witness:
  "\<exists>c w1 w2. client_connect (net_os [1, 2]) (client_new ''127.0.0.1'' 8001) example_net = (True, c, w1) \<and>
    client_session (net_os [1, 2]) c [Put_call ''k'' [1, 2], Get_call ''k'', Remove_call ''k'', Get_call ''k''] w1 =
      ([Inr (True, []), Inr (True, [1, 2]), Inr (True, []), Inr (False, [])], c, w2)"
  using client_server_session [of example_net "''127.0.0.1''" 8001 "server_new 8001"
      "[Put_call ''k'' [1, 2], Get_call ''k'', Remove_call ''k'', Get_call ''k'']" "[1, 2]"]
  by (simp add: server_new_def store_values_small_def example_net_def)

end
