(* ===== verification/Hash.thy ===== *)
theory Hash
  imports Cpp_Std
begin

text \<open>
  \<open>src/include/hash.h\<close> and the identifier arithmetic of \<open>src/src/hash.cpp\<close>: the type
  \<open>Hash160\<close> (an array of 20 bytes), its comparison operators (\<open>memcmp\<close>), the hexadecimal
  text form, and the three ring operations \<open>add_power_of_two\<close>, \<open>in_range\<close> and
  \<open>distance\<close>. Every operation works on bytes as the code does; the lemmas relate it to
  arithmetic modulo \<open>2 ^ 160\<close> through \<open>hval\<close>, the big-endian value of an identifier.
\<close>

section \<open>The identifier type\<close>

typedef Hash160 = "{xs :: bytes. length xs = 20}"
  morphisms hash_bytes Abs_Hash160
  by (rule exI [of _ "replicate 20 0"]) simp

text \<open>Aggregate initialisation: the bytes given, the rest zero. \<open>Hash160{}\<close> is \<open>mk_hash160 []\<close>.\<close>

definition mk_hash160 :: "bytes \<Rightarrow> Hash160" where
  "mk_hash160 xs = Abs_Hash160 (take 20 (xs @ replicate 20 0))"

lemma length_hash_bytes [simp]: "length (hash_bytes h) = 20"
  using hash_bytes [of h] by simp

lemma hash_bytes_Abs [simp]: "length xs = 20 \<Longrightarrow> hash_bytes (Abs_Hash160 xs) = xs"
  by (simp add: Abs_Hash160_inverse)

lemma hash_bytes_mk [simp]: "hash_bytes (mk_hash160 xs) = take 20 (xs @ replicate 20 0)"
  by (simp add: mk_hash160_def)

lemma hash_bytes_eq_iff: "hash_bytes a = hash_bytes b \<longleftrightarrow> a = b"
  by (simp add: hash_bytes_inject)

definition hval :: "Hash160 \<Rightarrow> nat" where
  "hval h = be_val (hash_bytes h)"

lemma hval_lt: "hval h < 2 ^ 160"
  using be_val_bound [of "hash_bytes h"] by (simp add: hval_def)

lemma hval_inj [simp]: "hval a = hval b \<longleftrightarrow> a = b"
  by (simp add: hval_def be_val_inj hash_bytes_eq_iff)

section \<open>Comparison operators\<close>

text \<open>The sign of \<open>std::memcmp\<close> on two blocks of the same size.\<close>

fun memcmp :: "bytes \<Rightarrow> bytes \<Rightarrow> int" where
  "memcmp (x # xs) (y # ys) = (if x = y then memcmp xs ys else if x < y then -1 else 1)"
| "memcmp _ _ = 0"

definition hash_eq :: "Hash160 \<Rightarrow> Hash160 \<Rightarrow> bool" where
  "hash_eq a b \<longleftrightarrow> memcmp (hash_bytes a) (hash_bytes b) = 0"

definition hash_ne :: "Hash160 \<Rightarrow> Hash160 \<Rightarrow> bool" where
  "hash_ne a b \<longleftrightarrow> \<not> hash_eq a b"

definition hash_lt :: "Hash160 \<Rightarrow> Hash160 \<Rightarrow> bool" where
  "hash_lt a b \<longleftrightarrow> memcmp (hash_bytes a) (hash_bytes b) < 0"

definition hash_le :: "Hash160 \<Rightarrow> Hash160 \<Rightarrow> bool" where
  "hash_le a b \<longleftrightarrow> memcmp (hash_bytes a) (hash_bytes b) \<le> 0"

definition hash_gt :: "Hash160 \<Rightarrow> Hash160 \<Rightarrow> bool" where
  "hash_gt a b \<longleftrightarrow> memcmp (hash_bytes a) (hash_bytes b) > 0"

definition hash_ge :: "Hash160 \<Rightarrow> Hash160 \<Rightarrow> bool" where
  "hash_ge a b \<longleftrightarrow> memcmp (hash_bytes a) (hash_bytes b) \<ge> 0"

lemma memcmp_sgn:
  "length xs = length ys \<Longrightarrow> memcmp xs ys = sgn (int (be_val xs) - int (be_val ys))"
proof (induction xs ys rule: list_induct2)
  case Nil
  then show ?case by simp
next
  case (Cons x xs y ys)
  have b: "be_val xs < 256 ^ length ys" "be_val ys < 256 ^ length ys"
    using be_val_bound [of xs] be_val_bound [of ys] Cons.hyps by simp_all
  consider "x = y" | "x < y" | "y < x" by (meson neqE)
  then show ?case
  proof cases
    case 1
    then show ?thesis using Cons by simp
  next
    case 2
    then have "be_val (x # xs) < be_val (y # ys)"
      using be_digit_less [OF b] Cons.hyps by (simp add: word_less_nat_alt)
    then show ?thesis using 2 by (auto simp del: be_val.simps simp add: sgn_if)
  next
    case 3
    then have "be_val (y # ys) < be_val (x # xs)"
      using be_digit_less [OF b(2) b(1)] Cons.hyps by (simp add: word_less_nat_alt)
    then show ?thesis using 3 by (auto simp del: be_val.simps simp add: sgn_if)
  qed
qed

lemma memcmp_hval: "memcmp (hash_bytes a) (hash_bytes b) = sgn (int (hval a) - int (hval b))"
  by (simp add: memcmp_sgn hval_def)

instantiation Hash160 :: linorder
begin

definition less_eq_Hash160 :: "Hash160 \<Rightarrow> Hash160 \<Rightarrow> bool" where
  "less_eq_Hash160 = hash_le"

definition less_Hash160 :: "Hash160 \<Rightarrow> Hash160 \<Rightarrow> bool" where
  "less_Hash160 = hash_lt"

instance
proof
  fix a b c :: Hash160
  note defs = less_eq_Hash160_def less_Hash160_def hash_le_def hash_lt_def memcmp_hval sgn_if
  show "a < b \<longleftrightarrow> a \<le> b \<and> \<not> b \<le> a" by (auto simp: defs)
  show "a \<le> a" by (simp add: defs)
  show "a \<le> b \<Longrightarrow> b \<le> c \<Longrightarrow> a \<le> c" by (auto simp: defs split: if_splits)
  show "a \<le> b \<Longrightarrow> b \<le> a \<Longrightarrow> a = b" by (auto simp: defs split: if_splits)
  show "a \<le> b \<or> b \<le> a" by (auto simp: defs)
qed

end

instantiation Hash160 :: equal
begin

definition equal_Hash160 :: "Hash160 \<Rightarrow> Hash160 \<Rightarrow> bool" where
  "equal_Hash160 = hash_eq"

instance
  by standard (auto simp: equal_Hash160_def hash_eq_def memcmp_hval sgn_if split: if_splits)

end

lemma less_hval: "a < b \<longleftrightarrow> hval a < hval b"
  by (auto simp: less_Hash160_def hash_lt_def memcmp_hval sgn_if simp del: hval_inj)

lemma less_eq_hval: "a \<le> b \<longleftrightarrow> hval a \<le> hval b"
  by (auto simp: less_eq_Hash160_def hash_le_def memcmp_hval sgn_if simp del: hval_inj)

lemma hash_eq_iff [simp]: "hash_eq a b \<longleftrightarrow> a = b"
  by (auto simp: hash_eq_def memcmp_hval sgn_if split: if_splits)

lemma hash_ne_iff [simp]: "hash_ne a b \<longleftrightarrow> a \<noteq> b"
  by (simp add: hash_ne_def)

lemma hash_lt_iff [simp]: "hash_lt a b \<longleftrightarrow> a < b"
  by (simp add: less_Hash160_def)

lemma hash_le_iff [simp]: "hash_le a b \<longleftrightarrow> a \<le> b"
  by (simp add: less_eq_Hash160_def)

lemma hash_gt_iff [simp]: "hash_gt a b \<longleftrightarrow> b < a"
  by (auto simp: hash_gt_def less_hval memcmp_hval sgn_if simp del: hval_inj)

lemma hash_ge_iff [simp]: "hash_ge a b \<longleftrightarrow> b \<le> a"
  by (auto simp: hash_ge_def less_eq_hval memcmp_hval sgn_if simp del: hval_inj)

section \<open>Adding a power of two\<close>

text \<open>
  The carry loop \<open>for (i = byte_index; i >= 0 && carry; i--)\<close>. The counter is
  \<open>i + 1\<close>, so that 0 stands for \<open>i = -1\<close>; \<open>sum\<close> is at most \<open>255 + 128\<close> and fits the
  code's \<open>uint16_t\<close>.
\<close>

fun add_carry_loop :: "nat \<Rightarrow> nat \<Rightarrow> nat \<Rightarrow> bool \<Rightarrow> bytes \<Rightarrow> bytes" where
  "add_carry_loop byte_index bit_index 0 carry result = result"
| "add_carry_loop byte_index bit_index (Suc i) carry result =
     (if \<not> carry then result
      else let sum = (if i = byte_index then unat (result ! i) + 2 ^ bit_index
                      else unat (result ! i) + (if carry then 1 else 0))
           in add_carry_loop byte_index bit_index i (sum > 255) (result[i := of_nat sum]))"

definition add_power_of_two :: "Hash160 \<Rightarrow> int \<Rightarrow> Hash160" where
  "add_power_of_two base pow =
     (if pow < 0 \<or> pow \<ge> 160 then base
      else let byte_index = 19 - nat pow div 8;
               bit_index = nat pow mod 8
           in Abs_Hash160
                (add_carry_loop byte_index bit_index (Suc byte_index) True (hash_bytes base)))"

lemma length_add_carry_loop [simp]:
  "length (add_carry_loop bi bt n c r) = length r"
  by (induction bi bt n c r rule: add_carry_loop.induct) (simp_all add: Let_def)

lemma unat_of_nat_byte: "unat (of_nat n :: byte) = n mod 256"
  by (simp add: unsigned_of_nat take_bit_eq_mod)

lemma drop_add_carry_loop:
  "drop n (add_carry_loop bi bt n c r) = drop n r"
proof (induction n arbitrary: c r)
  case 0
  then show ?case by simp
next
  case (Suc i)
  have "drop (Suc i) (add_carry_loop bi bt i d s) = drop (Suc i) s" for d s
    using Suc.IH [of d s] by (metis drop_Suc drop_tl)
  then show ?case by (simp add: Let_def)
qed

lemma mod_digit:
  fixes X t P B :: nat
  assumes "t < B"
  shows "(X * B + t) mod (P * B) = X mod P * B + t"
proof -
  have "(X * B + t) mod (B * P) = B * ((X * B + t) div B mod P) + (X * B + t) mod B"
    by (rule mod_mult2_eq)
  also have "(X * B + t) div B = X" using assms by simp
  also have "(X * B + t) mod B = t" using assms by simp
  finally show ?thesis by (simp add: mult.commute)
qed

lemma mod_pow_carry:
  fixes V s P :: nat
  assumes "256 \<le> s" and "s < 512"
  shows "(V + 1) mod P * 256 + s mod 256 = (V * 256 + s) mod (P * 256)"
proof -
  have s: "s mod 256 = s - 256" using assms by (simp add: le_mod_geq)
  have "V * 256 + s = (V + 1) * 256 + (s - 256)" using assms by simp
  then show ?thesis using mod_digit [of "s - 256" 256 "V + 1" P] assms s by simp
qed

lemma be_val_take_add_carry_loop:
  assumes "bt < 8" "n \<le> length r" "n \<le> Suc bi"
  shows "be_val (take n (add_carry_loop bi bt n True r)) =
     (be_val (take n r) + (if n = Suc bi then 2 ^ bt else 1)) mod 256 ^ n"
  using assms
proof (induction n arbitrary: r)
  case 0
  then show ?case by simp
next
  case (Suc i)
  let ?a = "if i = bi then 2 ^ bt else 1 :: nat"
  define s where "s = unat (r ! i) + ?a"
  let ?r1 = "r[i := of_nat s :: byte]"
  let ?V = "be_val (take i r)"
  have i: "i < length r" using Suc.prems by simp
  have "(2 :: nat) ^ bt \<le> 2 ^ 7" using Suc.prems by (intro power_increasing) simp_all
  then have a: "?a \<le> 128" by simp
  have s: "s < 512" using a unat_byte_lt [of "r ! i"] unfolding s_def by linarith
  have step: "add_carry_loop bi bt (Suc i) True r = add_carry_loop bi bt i (s > 255) ?r1"
    by (simp add: Let_def s_def add.commute)
  have V: "be_val (take (Suc i) r) + ?a = ?V * 256 + s"
    using i by (simp add: take_Suc_conv_app_nth be_val_append s_def)
  have Vb: "?V < 256 ^ i" using be_val_bound [of "take i r"] i by simp
  have "be_val (take (Suc i) (add_carry_loop bi bt (Suc i) True r)) = (?V * 256 + s) mod 256 ^ Suc i"
  proof (cases "s > 255")
    case False
    have "take (Suc i) ?r1 = take i r @ [of_nat s]"
      using i by (simp add: take_Suc_conv_app_nth)
    then have "be_val (take (Suc i) ?r1) = ?V * 256 + s"
      using False by (simp add: be_val_append unat_of_nat_byte)
    moreover have "?V * 256 + s < 256 ^ Suc i"
    proof -
      have "?V * 256 + s < (?V + 1) * 256" using False by simp
      also have "\<dots> \<le> 256 ^ i * 256" using Vb by (intro mult_le_mono1) simp
      finally show ?thesis by simp
    qed
    moreover have "add_carry_loop bi bt i False ?r1 = ?r1" by (cases i) simp_all
    ultimately show ?thesis using step False by simp
  next
    case True
    let ?r' = "add_carry_loop bi bt i True ?r1"
    have d: "drop i ?r' = drop i ?r1" by (rule drop_add_carry_loop)
    then have ri: "?r' ! i = of_nat s"
      using i by (metis hd_drop_conv_nth length_add_carry_loop length_list_update nth_list_update_eq)
    have "be_val (take i ?r') = (be_val (take i ?r1) + 1) mod 256 ^ i"
      using Suc.IH [of ?r1] Suc.prems by simp
    then have IH: "be_val (take i ?r') = (?V + 1) mod 256 ^ i" by simp
    have "take (Suc i) ?r' = take i ?r' @ [of_nat s]"
      using i ri by (simp add: take_Suc_conv_app_nth)
    then have "be_val (take (Suc i) ?r') = (?V + 1) mod 256 ^ i * 256 + s mod 256"
      using IH by (simp add: be_val_append unat_of_nat_byte)
    then have "be_val (take (Suc i) ?r') = (?V * 256 + s) mod (256 ^ i * 256)"
      using mod_pow_carry [of s ?V "256 ^ i"] True s by linarith
    then show ?thesis
      using step True by (simp add: mult.commute)
  qed
  then show ?case using V by simp
qed

lemma pow256: "(256 :: nat) ^ k = 2 ^ (8 * k)"
  by (simp add: power_mult)

lemma be_val_split:
  "be_val xs = be_val (take n xs) * 256 ^ (length xs - n) + be_val (drop n xs)"
  using be_val_append [of "take n xs" "drop n xs"] by simp

lemma be_val_add_carry_loop:
  assumes bi: "bi < length r" and bt: "bt < 8"
  shows "be_val (add_carry_loop bi bt (Suc bi) True r) =
     (be_val r + 2 ^ (8 * (length r - Suc bi) + bt)) mod 256 ^ length r"
proof -
  define r' where "r' = add_carry_loop bi bt (Suc bi) True r"
  define H where "H = be_val (take (Suc bi) r)"
  define L where "L = be_val (drop (Suc bi) r)"
  let ?B = "(256 :: nat) ^ (length r - Suc bi)"
  have top: "be_val (take (Suc bi) r') = (H + 2 ^ bt) mod 256 ^ Suc bi"
    using be_val_take_add_carry_loop [of bt "Suc bi" r bi] assms by (simp only: r'_def H_def) simp
  have low: "drop (Suc bi) r' = drop (Suc bi) r"
    unfolding r'_def by (rule drop_add_carry_loop)
  have L: "L < ?B"
    using be_val_bound [of "drop (Suc bi) r"] by (simp add: L_def)
  have len: "(256 :: nat) ^ Suc bi * ?B = 256 ^ length r"
    using bi by (metis Suc_leI le_add_diff_inverse power_add)
  have "be_val r' = (H + 2 ^ bt) mod 256 ^ Suc bi * ?B + L"
    using be_val_split [of r' "Suc bi"] top low by (simp add: L_def r'_def)
  also have "\<dots> = ((H + 2 ^ bt) * ?B + L) mod (256 ^ Suc bi * ?B)"
    by (rule mod_digit [OF L, symmetric])
  also have "(H + 2 ^ bt) * ?B + L = be_val r + 2 ^ (8 * (length r - Suc bi) + bt)"
    using be_val_split [of r "Suc bi"]
    by (simp add: H_def L_def pow256 power_add algebra_simps)
  finally show ?thesis by (simp only: len r'_def)
qed

lemma hval_add_power_of_two:
  assumes "0 \<le> pow" "pow < 160"
  shows "hval (add_power_of_two base pow) = (hval base + 2 ^ nat pow) mod 2 ^ 160"
proof -
  let ?bi = "19 - nat pow div 8"
  have bi: "?bi < length (hash_bytes base)" by simp
  have "8 * (length (hash_bytes base) - Suc ?bi) + nat pow mod 8 = nat pow"
    using assms by simp
  then have "be_val (add_carry_loop ?bi (nat pow mod 8) (Suc ?bi) True (hash_bytes base)) =
      (be_val (hash_bytes base) + 2 ^ nat pow) mod 256 ^ 20"
    using be_val_add_carry_loop [OF bi, of "nat pow mod 8"]
    by (simp del: add_carry_loop.simps)
  then show ?thesis
    using assms by (simp add: hval_def add_power_of_two_def Let_def del: add_carry_loop.simps)
qed

section \<open>Ring intervals\<close>

definition in_range :: "Hash160 \<Rightarrow> Hash160 \<Rightarrow> Hash160 \<Rightarrow> bool \<Rightarrow> bool" where
  "in_range hid start end inclusive_end =
     (if hash_eq start end then (if inclusive_end then hash_eq hid start else False)
      else if hash_lt start end
      then hash_gt hid start \<and> (if inclusive_end then hash_le hid end else hash_lt hid end)
      else hash_gt hid start \<or> (if inclusive_end then hash_le hid end else hash_lt hid end))"

text \<open>The clockwise distance on the ring of \<open>2 ^ 160\<close> identifiers, the reference for the intervals.\<close>

definition ring_dist :: "Hash160 \<Rightarrow> Hash160 \<Rightarrow> nat" where
  "ring_dist a b = (hval b + 2 ^ 160 - hval a) mod 2 ^ 160"

lemma ring_dist_lt: "ring_dist a b < 2 ^ 160"
  by (simp add: ring_dist_def)

lemma ring_dist_le: "hval a \<le> hval b \<Longrightarrow> ring_dist a b = hval b - hval a"
proof -
  assume le: "hval a \<le> hval b"
  have "(hval b - hval a + 2 ^ 160) mod 2 ^ 160 = (hval b - hval a) mod 2 ^ 160"
    by (rule mod_add_self2)
  also have "\<dots> = hval b - hval a" by (rule mod_less) (use hval_lt [of b] in linarith)
  finally show ?thesis using le by (simp add: ring_dist_def)
qed

lemma ring_dist_gt: "hval b < hval a \<Longrightarrow> ring_dist a b = hval b + 2 ^ 160 - hval a"
  unfolding ring_dist_def by (rule mod_less) (use hval_lt [of a] in linarith)

lemma ring_dist_eq_0 [simp]: "ring_dist a b = 0 \<longleftrightarrow> a = b"
  using hval_lt [of a] ring_dist_le [of a b] ring_dist_gt [of b a]
  by (metis add_diff_cancel_left' diff_is_0_eq hval_inj le_antisym less_diff_conv linorder_not_less
      not_add_less2 order_less_imp_le zero_less_diff)

lemma ring_dist_pos [simp]: "0 < ring_dist a b \<longleftrightarrow> a \<noteq> b"
  using ring_dist_eq_0 [of a b] by (metis gr0I less_irrefl)

lemma ring_dist_self [simp]: "ring_dist a a = 0"
  by simp

text \<open>The two kinds of interval in terms of the distance from the start.\<close>

lemma in_range_closed:
  "start \<noteq> end \<Longrightarrow> in_range hid start end True \<longleftrightarrow>
     0 < ring_dist start hid \<and> ring_dist start hid \<le> ring_dist start end"
  using hval_lt [of hid] hval_lt [of start] hval_lt [of "end"]
  by (cases "hval hid < hval start"; cases "hval end < hval start")
     (auto simp: in_range_def less_hval less_eq_hval ring_dist_le ring_dist_gt)

lemma in_range_open:
  "start \<noteq> end \<Longrightarrow> in_range hid start end False \<longleftrightarrow>
     0 < ring_dist start hid \<and> ring_dist start hid < ring_dist start end"
  using hval_lt [of hid] hval_lt [of start] hval_lt [of "end"]
  by (cases "hval hid < hval start"; cases "hval end < hval start")
     (auto simp: in_range_def less_hval less_eq_hval ring_dist_le ring_dist_gt)

lemma in_range_degenerate [simp]: "in_range hid start start incl \<longleftrightarrow> incl \<and> hid = start"
  by (simp add: in_range_def)

lemma in_range_start [simp]: "in_range start start end False = False"
  by (cases "start = end") (simp_all add: in_range_open)

lemma in_range_end [simp]: "in_range end start end False = False"
  by (cases "start = end") (simp_all add: in_range_open)

lemma in_range_end_closed [simp]: "in_range end start end True"
  by (cases "start = end") (auto simp: in_range_closed)

section \<open>Distance\<close>

text \<open>The borrow loop of the first branch, from the last byte to the first.\<close>

fun sub_borrow_loop :: "nat \<Rightarrow> bool \<Rightarrow> bytes \<Rightarrow> bytes \<Rightarrow> bytes \<Rightarrow> bytes" where
  "sub_borrow_loop 0 borrow to from result = result"
| "sub_borrow_loop (Suc i) borrow to from result =
     (let diff = int (unat (to ! i)) - int (unat (from ! i)) - (if borrow then 1 else 0)
      in if diff < 0 then sub_borrow_loop i True to from (result[i := word_of_int (diff + 256)])
         else sub_borrow_loop i False to from (result[i := word_of_int diff]))"

abbreviation max_hash :: Hash160 where
  "max_hash \<equiv> Abs_Hash160 (replicate 20 255)"

lemma hval_max_hash: "hval max_hash = 2 ^ 160 - 1"
  by (simp add: hval_def be_val_replicate_ff)

lemma le_max_hash [simp]: "h \<le> max_hash"
  using hval_lt [of h] by (simp add: less_eq_hval hval_max_hash)

lemma hval_zero [simp]: "hval (mk_hash160 []) = 0"
  by (simp add: hval_def)

lemma zero_le_hash [simp]: "mk_hash160 [] \<le> h"
  by (simp add: less_eq_hval)

function distance :: "Hash160 \<Rightarrow> Hash160 \<Rightarrow> Hash160" where
  "distance from to =
     (if hash_ge to from
      then Abs_Hash160 (sub_borrow_loop 20 False (hash_bytes to) (hash_bytes from)
                          (hash_bytes (mk_hash160 [])))
      else let temp = distance from max_hash
           in add_power_of_two (distance (mk_hash160 []) to) 0)"
  by pat_completeness auto
termination
  by (relation "measure (\<lambda>(from, to). if from \<le> to then 0 else 1)") auto

declare distance.simps [simp del]

lemma length_sub_borrow_loop [simp]: "length (sub_borrow_loop n b t f r) = length r"
  by (induction n b t f r rule: sub_borrow_loop.induct) (simp_all add: Let_def)

lemma drop_sub_borrow_loop: "drop n (sub_borrow_loop n b t f r) = drop n r"
proof (induction n arbitrary: b r)
  case 0
  then show ?case by simp
next
  case (Suc i)
  have "drop (Suc i) (sub_borrow_loop i d t f s) = drop (Suc i) s" for d s
    using Suc.IH [of d s] by (metis drop_Suc drop_tl)
  then show ?case by (simp add: Let_def)
qed

lemma mod_digit_int:
  fixes X t P B :: int
  assumes "0 \<le> t" "t < B" "0 < P"
  shows "(X * B + t) mod (P * B) = X mod P * B + t"
proof -
  have "(X * B + t) mod (B * P) = B * ((X * B + t) div B mod P) + (X * B + t) mod B"
    using assms by (intro zmod_zmult2_eq) simp
  also have "(X * B + t) div B = X" using assms by simp
  also have "(X * B + t) mod B = t" using assms by simp
  finally show ?thesis by (simp add: mult.commute)
qed

lemma uint_word_of_int_byte: "0 \<le> d \<Longrightarrow> d < 256 \<Longrightarrow> uint (word_of_int d :: byte) = d"
  by (simp add: unsigned_of_int take_bit_eq_mod)

lemma be_val_take_Suc:
  "i < length xs \<Longrightarrow> be_val (take (Suc i) xs) = be_val (take i xs) * 256 + unat (xs ! i)"
  by (simp add: take_Suc_conv_app_nth be_val_append)

lemma sub_borrow_step:
  assumes "i < length r" and "0 \<le> d" "d < 256"
  shows "int (be_val (take (Suc i) (sub_borrow_loop i b t f (r[i := word_of_int d])))) =
     int (be_val (take i (sub_borrow_loop i b t f (r[i := word_of_int d])))) * 256 + d"
proof -
  let ?r1 = "r[i := word_of_int d]"
  let ?r' = "sub_borrow_loop i b t f ?r1"
  have "?r' ! i = word_of_int d"
    using drop_sub_borrow_loop [of i b t f ?r1] assms(1)
    by (metis hd_drop_conv_nth length_list_update length_sub_borrow_loop nth_list_update_eq)
  then have "int (unat (?r' ! i)) = d" using assms by (simp add: uint_word_of_int_byte)
  then show ?thesis using assms(1) by (simp add: be_val_take_Suc)
qed

lemma be_val_sub_borrow_loop:
  assumes "n \<le> length t" "n \<le> length f" "n \<le> length r"
  shows "int (be_val (take n (sub_borrow_loop n b t f r))) =
     (int (be_val (take n t)) - int (be_val (take n f)) - of_bool b) mod 256 ^ n"
  using assms
proof (induction n arbitrary: b r)
  case 0
  then show ?case by simp
next
  case (Suc i)
  define d where "d = int (unat (t ! i)) - int (unat (f ! i)) - of_bool b"
  define c where "c = (d < 0)"
  define e where "e = d + 256 * of_bool c"
  let ?T = "int (be_val (take i t))" and ?F = "int (be_val (take i f))"
  have "int (unat (t ! i)) \<le> 255" "int (unat (f ! i)) \<le> 255"
    using unat_byte_le [of "t ! i"] unat_byte_le [of "f ! i"] by linarith+
  moreover have "0 \<le> int (unat (t ! i))" "0 \<le> int (unat (f ! i))" "(of_bool b :: int) \<in> {0, 1}"
    by simp_all
  ultimately have db: "- 256 \<le> d" "d < 256"
    unfolding d_def by (auto simp only: insert_iff empty_iff)
  then have e: "0 \<le> e" "e < 256" by (auto simp: e_def c_def of_bool_def)
  have step: "sub_borrow_loop (Suc i) b t f r = sub_borrow_loop i c t f (r[i := word_of_int e])"
    by (simp add: Let_def d_def c_def e_def of_bool_def)
  have "int (be_val (take (Suc i) (sub_borrow_loop (Suc i) b t f r))) =
      (?T - ?F - of_bool c) mod 256 ^ i * 256 + e"
    using sub_borrow_step [of i r e c t f] Suc.IH [of "r[i := word_of_int e]" c] Suc.prems e step
    by simp
  also have "\<dots> = ((?T - ?F - of_bool c) * 256 + e) mod (256 ^ i * 256)"
    using mod_digit_int [of e 256 "256 ^ i" "?T - ?F - of_bool c"] e by simp
  also have "(?T - ?F - of_bool c) * 256 + e =
      int (be_val (take (Suc i) t)) - int (be_val (take (Suc i) f)) - of_bool b"
    using Suc.prems by (simp add: be_val_take_Suc e_def d_def algebra_simps)
  finally show ?case by (simp add: mult.commute)
qed

lemma hval_distance_forward:
  assumes "from \<le> to"
  shows "hval (distance from to) = hval to - hval from"
proof -
  have le: "hval from \<le> hval to" using assms by (simp add: less_eq_hval)
  have "int (be_val (sub_borrow_loop 20 False (hash_bytes to) (hash_bytes from) (replicate 20 0))) =
      (int (hval to) - int (hval from)) mod 256 ^ 20"
    using be_val_sub_borrow_loop [of 20 "hash_bytes to" "hash_bytes from" "replicate 20 0" False]
    by (simp add: hval_def del: sub_borrow_loop.simps)
  also have "\<dots> = int (hval to - hval from)"
    using le hval_lt [of to] by (simp add: of_nat_diff)
  finally show ?thesis
    using assms by (subst distance.simps) (simp add: hval_def)
qed

lemma hval_distance_backward:
  assumes "to < from"
  shows "hval (distance from to) = hval to + 1"
proof -
  have "hval to + 1 < 2 ^ 160" using assms hval_lt [of "from"] by (simp add: less_hval)
  then have "hval (add_power_of_two to 0) = hval to + 1"
    by (simp add: hval_add_power_of_two)
  moreover have "distance (mk_hash160 []) to = to"
    using hval_distance_forward [of "mk_hash160 []" to] by simp
  moreover have "\<not> from \<le> to" using assms by simp
  ultimately show ?thesis
    by (subst distance.simps) (simp add: Let_def)
qed

section \<open>Hexadecimal text\<close>

definition hash_to_string :: "Hash160 \<Rightarrow> string" where
  "hash_to_string h =
     concat (map (\<lambda>b. [digit_char (unat b div 16), digit_char (unat b mod 16)]) (hash_bytes h))"

fun parse_hex_bytes :: "nat \<Rightarrow> string \<Rightarrow> fault + bytes" where
  "parse_hex_bytes 0 s = Inr []"
| "parse_hex_bytes (Suc n) s =
     (case stoi 16 (take 2 s) of
        Inl f \<Rightarrow> Inl f
      | Inr v \<Rightarrow> (case parse_hex_bytes n (drop 2 s) of
                     Inl f \<Rightarrow> Inl f
                   | Inr bs \<Rightarrow> Inr (word_of_int v # bs)))"

definition hash_from_string :: "string \<Rightarrow> fault + Hash160" where
  "hash_from_string s =
     (if length s \<noteq> 40 then Inr (mk_hash160 [])
      else case parse_hex_bytes 20 s of
             Inl f \<Rightarrow> Inl f
           | Inr bs \<Rightarrow> Inr (mk_hash160 bs))"

lemma length_hash_to_string [simp]: "length (hash_to_string h) = 40"
proof -
  have "length (concat (map (\<lambda>b. [f b, g b]) xs)) = 2 * length xs" for f g :: "byte \<Rightarrow> char" and xs :: bytes
    by (induction xs) simp_all
  then show ?thesis by (simp add: hash_to_string_def)
qed

lemma parse_hex_bytes_digits:
  "parse_hex_bytes (length bs)
     (concat (map (\<lambda>b. [digit_char (unat b div 16), digit_char (unat b mod 16)]) bs)) = Inr bs"
proof (induction bs)
  case Nil
  then show ?case by simp
next
  case (Cons b bs)
  have "unat b div 16 < 16" using unat_byte_lt [of b] by linarith
  moreover have "int (16 * (unat b div 16) + unat b mod 16) = int (unat b)"
    by (simp only: mult_div_mod_eq)
  ultimately have "stoi 16 [digit_char (unat b div 16), digit_char (unat b mod 16)] = Inr (int (unat b))"
    using stoi_hex_pair [of "unat b div 16" "unat b mod 16"] by (simp del: mult_div_mod_eq)
  then show ?case using Cons by (simp add: numeral_2_eq_2)
qed

lemma hash_from_to_string: "hash_from_string (hash_to_string h) = Inr h"
proof -
  have "parse_hex_bytes 20 (hash_to_string h) = Inr (hash_bytes h)"
    using parse_hex_bytes_digits [of "hash_bytes h"] by (simp add: hash_to_string_def)
  moreover have "mk_hash160 (hash_bytes h) = h"
    by (simp add: mk_hash160_def hash_bytes_inverse)
  ultimately show ?thesis by (simp add: hash_from_string_def)
qed

section \<open>Properties\<close>

text \<open>
  C21. For two different ends, the half-open and the open ring interval of \<open>in_range\<close> hold
  exactly the identifiers whose clockwise distance from the start is positive and at most
  (respectively below) the distance of the end: the byte comparisons implement modular
  arithmetic on \<open>2 ^ 160\<close> identifiers, wrap-around included.
\<close>

theorem in_range_ring:
  assumes "start \<noteq> end"
  shows "in_range hid start end incl \<longleftrightarrow>
    0 < ring_dist start hid \<and>
    (if incl then ring_dist start hid \<le> ring_dist start end
     else ring_dist start hid < ring_dist start end)"
  using in_range_closed [OF assms, of hid] in_range_open [OF assms, of hid] by (cases incl) simp_all

theorem in_range_ring_witness:
  "in_range (mk_hash160 [30]) (mk_hash160 [200]) (mk_hash160 [50]) True"
proof -
  have ne: "mk_hash160 [200] \<noteq> mk_hash160 [50]"
    by (simp add: hash_bytes_eq_iff [symmetric])
  have v: "hval (mk_hash160 [b]) = unat b * 256 ^ 19" for b
    by (simp add: hval_def)
  have "ring_dist (mk_hash160 [200]) (mk_hash160 [30]) = 86 * 256 ^ 19"
    "ring_dist (mk_hash160 [200]) (mk_hash160 [50]) = 106 * 256 ^ 19"
    by (simp_all add: ring_dist_def v)
  then show ?thesis using in_range_ring [OF ne, of "mk_hash160 [30]" True] by simp
qed

text \<open>
  C22. \<open>add_power_of_two\<close> adds \<open>2 ^ p\<close> modulo \<open>2 ^ 160\<close> for every valid exponent, carries
  included, and leaves the identifier alone for an invalid one.
\<close>

theorem add_power_of_two_value:
  "hval (add_power_of_two base p) =
     (if 0 \<le> p \<and> p < 160 then (hval base + 2 ^ nat p) mod 2 ^ 160 else hval base)"
  by (auto simp: hval_add_power_of_two) (simp_all add: add_power_of_two_def)

text \<open>
  \<open>distance\<close> is the clockwise distance only when it does not wrap: for \<open>from \<le> to\<close> it is the
  difference, but for \<open>to < from\<close> it is \<open>to + 1\<close> and does not depend on \<open>from\<close> at all.
\<close>

theorem distance_value:
  "hval (distance from to) = (if from \<le> to then ring_dist from to else hval to + 1)"
  using hval_distance_forward [of "from" to] hval_distance_backward [of to "from"] ring_dist_le [of "from" to]
  by (auto simp: less_eq_hval not_le less_hval)

text \<open>
  The hexadecimal text of an identifier, as it appears in logs and tools, reads back as the same
  identifier: \<open>SHA1::from_string\<close> does not throw on it and inverts \<open>SHA1::to_string\<close>.
\<close>

theorem hash_text_round_trip:
  "hash_from_string (hash_to_string h) = Inr h"
  by (rule hash_from_to_string)

end
