(* ===== verification/Sha1.thy ===== *)
theory Sha1
  imports Hash
begin

text \<open>
  The class \<open>SHA1\<close> of \<open>src/src/hash.cpp\<close>: the rotation, the padding of the message,
  the compression of one 64-byte block and the digest. A second group of definitions writes
  the standard (FIPS 180-4) down independently of the code: the padding as a closed form,
  the message schedule as a recursive function on the index, and the round functions
  \<open>Ch\<close>, \<open>Parity\<close> and \<open>Maj\<close> with exclusive or. The main result is that the code
  computes the digest of the standard on every message.
\<close>

section \<open>The code\<close>

definition left_rotate :: "u32 \<Rightarrow> nat \<Rightarrow> u32" where
  "left_rotate value amount = push_bit amount value OR drop_bit (32 - amount) value"

text \<open>Four bytes of a block as a big-endian word.\<close>

definition block_word :: "bytes \<Rightarrow> nat \<Rightarrow> u32" where
  "block_word block i =
     u32_of_bytes (block ! (i * 4)) (block ! (i * 4 + 1)) (block ! (i * 4 + 2)) (block ! (i * 4 + 3))"

text \<open>The array \<open>w[80]\<close>: the first loop fills 16 entries, the second appends the others.\<close>

fun extend_schedule :: "nat \<Rightarrow> u32 list \<Rightarrow> u32 list" where
  "extend_schedule 0 w = w"
| "extend_schedule (Suc n) w =
     (let i = length w
      in extend_schedule n
           (w @ [left_rotate (w ! (i - 3) XOR w ! (i - 8) XOR w ! (i - 14) XOR w ! (i - 16)) 1]))"

definition message_schedule :: "bytes \<Rightarrow> u32 list" where
  "message_schedule block = extend_schedule 64 (map (block_word block) [0..<16])"

record sha_state =
  sa :: u32
  sb :: u32
  sc :: u32
  sd :: u32
  se :: u32

definition round_f :: "nat \<Rightarrow> u32 \<Rightarrow> u32 \<Rightarrow> u32 \<Rightarrow> u32" where
  "round_f i b c d =
     (if i < 20 then (b AND c) OR (NOT b AND d)
      else if i < 40 then b XOR c XOR d
      else if i < 60 then (b AND c) OR (b AND d) OR (c AND d)
      else b XOR c XOR d)"

definition round_k :: "nat \<Rightarrow> u32" where
  "round_k i =
     (if i < 20 then 0x5A827999
      else if i < 40 then 0x6ED9EBA1
      else if i < 60 then 0x8F1BBCDC
      else 0xCA62C1D6)"

definition sha_round :: "nat \<Rightarrow> u32 \<Rightarrow> sha_state \<Rightarrow> sha_state" where
  "sha_round i w s =
     (let temp = left_rotate (sa s) 5 + round_f i (sb s) (sc s) (sd s) + se s + round_k i + w
      in \<lparr>sa = temp, sb = sa s, sc = left_rotate (sb s) 30, sd = sc s, se = sd s\<rparr>)"

fun rounds_from :: "nat \<Rightarrow> u32 list \<Rightarrow> sha_state \<Rightarrow> sha_state" where
  "rounds_from i [] s = s"
| "rounds_from i (w # ws) s = rounds_from (Suc i) ws (sha_round i w s)"

definition process_block :: "bytes \<Rightarrow> sha_state \<Rightarrow> sha_state" where
  "process_block block h =
     (let r = rounds_from 0 (message_schedule block) h
      in \<lparr>sa = sa h + sa r, sb = sb h + sb r, sc = sc h + sc r, sd = sd h + sd r,
          se = se h + se r\<rparr>)"

text \<open>\<open>while (new_len % 64 != 56) new_len++\<close>.\<close>

function pad_len :: "nat \<Rightarrow> nat" where
  "pad_len n = (if n mod 64 \<noteq> 56 then pad_len (Suc n) else n)"
  by pat_completeness auto
termination
proof (relation "measure (\<lambda>n. if n mod 64 \<le> 56 then 56 - n mod 64 else 120 - n mod 64)")
  fix n :: nat
  assume ne: "n mod 64 \<noteq> 56"
  define r where "r = n mod 64"
  have "r < 64" and "Suc n mod 64 = (if r = 63 then 0 else Suc r)"
    by (simp_all add: r_def mod_Suc)
  then show "(Suc n, n) \<in> measure (\<lambda>n. if n mod 64 \<le> 56 then 56 - n mod 64 else 120 - n mod 64)"
    using ne unfolding r_def [symmetric] in_measure by (auto simp: r_def [symmetric])
qed simp

declare pad_len.simps [simp del]

text \<open>The eight length bytes: \<open>(bit_len >> (8 * (7 - i))) & 0xFF\<close>, with \<open>bit_len\<close> a \<open>uint64_t\<close>.\<close>

definition length_byte :: "u64 \<Rightarrow> nat \<Rightarrow> byte" where
  "length_byte bit_len i = ucast (drop_bit (8 * (7 - i)) bit_len AND 0xFF)"

fun write_length :: "nat \<Rightarrow> nat \<Rightarrow> u64 \<Rightarrow> bytes \<Rightarrow> bytes" where
  "write_length 0 new_len bit_len msg = msg"
| "write_length (Suc k) new_len bit_len msg =
     (let i = 7 - k
      in write_length k new_len bit_len (msg[new_len + i := length_byte bit_len i]))"

definition padded_message :: "bytes \<Rightarrow> bytes" where
  "padded_message data =
     (let bit_len = of_nat (length data * 8) :: u64;
          new_len = pad_len (length data + 1);
          msg = replicate (new_len + 8) 0;
          copied = data @ drop (length data) msg;
          marked = copied[length data := 0x80]
      in write_length 8 new_len bit_len marked)"

function process_chunks :: "bytes \<Rightarrow> sha_state \<Rightarrow> sha_state" where
  "process_chunks msg h =
     (if msg = [] then h else process_chunks (drop 64 msg) (process_block (take 64 msg) h))"
  by pat_completeness auto
termination
  by (relation "measure (\<lambda>(msg, h). length msg)") auto

declare process_chunks.simps [simp del]

definition sha_init :: sha_state where
  "sha_init = \<lparr>sa = 0x67452301, sb = 0xEFCDAB89, sc = 0x98BADCFE, sd = 0x10325476,
               se = 0xC3D2E1F0\<rparr>"

definition sha_result :: "sha_state \<Rightarrow> Hash160" where
  "sha_result h =
     mk_hash160 (bytes_of_u32 (sa h) @ bytes_of_u32 (sb h) @ bytes_of_u32 (sc h) @ bytes_of_u32 (sd h) @
                 bytes_of_u32 (se h))"

definition SHA1_hash_bytes :: "bytes \<Rightarrow> Hash160" where
  "SHA1_hash_bytes data = sha_result (process_chunks (padded_message data) sha_init)"

definition SHA1_hash :: "string \<Rightarrow> Hash160" where
  "SHA1_hash input = SHA1_hash_bytes (bytes_of_string input)"

section \<open>The standard\<close>

definition fips_ch :: "u32 \<Rightarrow> u32 \<Rightarrow> u32 \<Rightarrow> u32" where
  "fips_ch x y z = (x AND y) XOR (NOT x AND z)"

definition fips_parity :: "u32 \<Rightarrow> u32 \<Rightarrow> u32 \<Rightarrow> u32" where
  "fips_parity x y z = x XOR y XOR z"

definition fips_maj :: "u32 \<Rightarrow> u32 \<Rightarrow> u32 \<Rightarrow> u32" where
  "fips_maj x y z = (x AND y) XOR (x AND z) XOR (y AND z)"

definition fips_f :: "nat \<Rightarrow> u32 \<Rightarrow> u32 \<Rightarrow> u32 \<Rightarrow> u32" where
  "fips_f t = (if t \<le> 19 then fips_ch else if t \<le> 39 then fips_parity
               else if t \<le> 59 then fips_maj else fips_parity)"

definition fips_k :: "nat \<Rightarrow> u32" where
  "fips_k t = (if t \<le> 19 then 0x5a827999 else if t \<le> 39 then 0x6ed9eba1
               else if t \<le> 59 then 0x8f1bbcdc else 0xca62c1d6)"

text \<open>The 32-bit big-endian word number \<open>i\<close> of a block.\<close>

definition fips_word :: "bytes \<Rightarrow> nat \<Rightarrow> u32" where
  "fips_word block i = of_nat (be_val (take 4 (drop (4 * i) block)))"

text \<open>The message schedule, by recursion on the index.\<close>

fun fips_w :: "(nat \<Rightarrow> u32) \<Rightarrow> nat \<Rightarrow> u32" where
  "fips_w M t =
     (if t < 16 then M t
      else word_rotl 1 (fips_w M (t - 3) XOR fips_w M (t - 8) XOR fips_w M (t - 14) XOR
                        fips_w M (t - 16)))"

declare fips_w.simps [simp del]

type_synonym fips_hash = "u32 \<times> u32 \<times> u32 \<times> u32 \<times> u32"

fun fips_step :: "(nat \<Rightarrow> u32) \<Rightarrow> nat \<Rightarrow> fips_hash \<Rightarrow> fips_hash" where
  "fips_step M t (a, b, c, d, e) =
     (word_rotl 5 a + fips_f t b c d + e + fips_k t + fips_w M t, a, word_rotl 30 b, c, d)"

definition fips_block :: "bytes \<Rightarrow> fips_hash \<Rightarrow> fips_hash" where
  "fips_block block H =
     (case (H, fold (fips_step (fips_word block)) [0..<80] H) of
        ((h0, h1, h2, h3, h4), (a, b, c, d, e)) \<Rightarrow> (a + h0, b + h1, c + h2, d + h3, e + h4))"

text \<open>
  The padding of a message of \<open>l\<close> bits: a one bit, the least number of zero bits that leaves
  the length congruent to 448 modulo 512, and \<open>l\<close> as a 64-bit big-endian number.
\<close>

definition fips_zero_bytes :: "nat \<Rightarrow> nat" where
  "fips_zero_bytes n = (LEAST k. (n + 1 + k) mod 64 = 56)"

definition be_bytes :: "nat \<Rightarrow> nat \<Rightarrow> bytes" where
  "be_bytes n x = map (\<lambda>i. of_nat (x div 256 ^ (n - 1 - i))) [0..<n]"

definition fips_pad :: "bytes \<Rightarrow> bytes" where
  "fips_pad data = data @ [0x80] @ replicate (fips_zero_bytes (length data)) 0 @
                   be_bytes 8 (8 * length data)"

definition fips_sha1 :: "bytes \<Rightarrow> bytes" where
  "fips_sha1 data =
     (let p = fips_pad data;
          H0 = (0x67452301, 0xefcdab89, 0x98badcfe, 0x10325476, 0xc3d2e1f0)
      in case fold (\<lambda>i. fips_block (take 64 (drop (64 * i) p))) [0..<length p div 64] H0 of
           (h0, h1, h2, h3, h4) \<Rightarrow>
             be_bytes 4 (unat h0) @ be_bytes 4 (unat h1) @ be_bytes 4 (unat h2) @
             be_bytes 4 (unat h3) @ be_bytes 4 (unat h4))"

section \<open>The code computes the standard\<close>

lemma left_rotate_word_rotl:
  assumes n: "n < 32"
  shows "left_rotate x n = word_rotl n x"
proof (rule bit_word_eqI)
  fix i
  assume "i < LENGTH(32)"
  then have i: "i < 32" by simp
  show "bit (left_rotate x n) i \<longleftrightarrow> bit (word_rotl n x) i"
  proof (cases "n \<le> i")
    case True
    then have "(i + 32 - n) mod 32 = i - n" using i by (simp add: le_mod_geq)
    moreover have "\<not> bit x (32 + i - n)" using bit_imp_le_length [of x "32 + i - n"] True by auto
    ultimately show ?thesis using True i n
      by (simp add: left_rotate_def bit_simps)
  next
    case False
    then have "(i + 32 - n) mod 32 = 32 + i - n" using n by simp
    then show ?thesis using False i n by (simp add: left_rotate_def bit_simps)
  qed
qed

lemma round_f_fips: "round_f t b c d = fips_f t b c d"
proof -
  have ch: "(b AND c) OR (NOT b AND d) = fips_ch b c d" for b c d
    unfolding fips_ch_def by (rule bit_word_eqI) (auto simp: bit_simps)
  have maj: "(b AND c) OR (b AND d) OR (c AND d) = fips_maj b c d" for b c d
    unfolding fips_maj_def by (rule bit_word_eqI) (auto simp: bit_simps)
  show ?thesis
    by (simp add: round_f_def fips_f_def ch maj fips_parity_def)
qed

lemma round_k_fips: "round_k t = fips_k t"
  by (simp add: round_k_def fips_k_def)

lemma block_word_fips:
  assumes "i < 16" "length block = 64"
  shows "block_word block i = fips_word block i"
proof -
  let ?j = "4 * i"
  have "take 4 (drop ?j block) = [block ! ?j, block ! (?j + 1), block ! (?j + 2), block ! (?j + 3)]"
    using assms by (intro nth_equalityI) (auto simp: less_Suc_eq nth_Cons' numeral_eq_Suc)
  then have "fips_word block i = of_nat (unat (block_word block i))"
    unfolding fips_word_def block_word_def unat_u32_of_bytes by (simp only: mult.commute)
  then show ?thesis by simp
qed

lemma length_extend_schedule [simp]: "length (extend_schedule n w) = length w + n"
  by (induction n arbitrary: w) (simp_all add: Let_def)

lemma extend_schedule_fips:
  assumes "16 \<le> length w" "\<And>i. i < length w \<Longrightarrow> w ! i = fips_w M i" "i < length w + n"
  shows "extend_schedule n w ! i = fips_w M i"
  using assms
proof (induction n arbitrary: w)
  case 0
  then show ?case by simp
next
  case (Suc n)
  let ?k = "length w"
  let ?x = "left_rotate (w ! (?k - 3) XOR w ! (?k - 8) XOR w ! (?k - 14) XOR w ! (?k - 16)) 1"
  have "?x = fips_w M ?k"
    using Suc.prems(1,2) by (subst fips_w.simps) (simp add: left_rotate_word_rotl)
  then have "(w @ [?x]) ! j = fips_w M j" if "j < length (w @ [?x])" for j
    using that Suc.prems(2) by (auto simp: nth_append less_Suc_eq)
  then show ?case
    using Suc.IH [of "w @ [?x]"] Suc.prems by (simp add: Let_def)
qed

lemma length_message_schedule [simp]: "length (message_schedule block) = 80"
  by (simp add: message_schedule_def)

lemma message_schedule_fips:
  assumes "length block = 64" "i < 80"
  shows "message_schedule block ! i = fips_w (fips_word block) i"
proof -
  have "map (block_word block) [0..<16] ! j = fips_w (fips_word block) j" if "j < 16" for j
    using that assms(1) by (simp add: block_word_fips fips_w.simps [of _ j])
  then show ?thesis
    using extend_schedule_fips [of "map (block_word block) [0..<16]" "fips_word block" i 64] assms(2)
    by (simp add: message_schedule_def)
qed

definition sha_tuple :: "sha_state \<Rightarrow> fips_hash" where
  "sha_tuple s = (sa s, sb s, sc s, sd s, se s)"

lemma sha_round_fips: "w = fips_w M t \<Longrightarrow> sha_tuple (sha_round t w s) = fips_step M t (sha_tuple s)"
  by (simp add: sha_tuple_def sha_round_def Let_def left_rotate_word_rotl round_f_fips round_k_fips)

lemma rounds_from_fips:
  "(\<And>j. j < length ws \<Longrightarrow> ws ! j = fips_w M (i + j)) \<Longrightarrow>
   sha_tuple (rounds_from i ws s) = fold (fips_step M) [i..<i + length ws] (sha_tuple s)"
proof (induction ws arbitrary: i s)
  case Nil
  then show ?case by simp
next
  case (Cons w ws)
  have "w = fips_w M i" using Cons.prems [of 0] by simp
  moreover have "ws ! j = fips_w M (Suc i + j)" if "j < length ws" for j
    using Cons.prems [of "Suc j"] that by simp
  moreover have "[i..<i + length (w # ws)] = i # [Suc i..<Suc i + length ws]"
    by (simp add: upt_conv_Cons del: upt_Suc)
  ultimately show ?case
    using Cons.IH [of "Suc i" "sha_round i w s"] by (simp add: sha_round_fips)
qed

lemma process_block_fips:
  assumes "length block = 64"
  shows "sha_tuple (process_block block h) = fips_block block (sha_tuple h)"
proof -
  let ?r = "rounds_from 0 (message_schedule block) h"
  have r: "sha_tuple ?r = fold (fips_step (fips_word block)) [0..<80] (sha_tuple h)"
    using rounds_from_fips [of "message_schedule block" "fips_word block" 0 h]
      message_schedule_fips [OF assms] by simp
  show ?thesis
    unfolding fips_block_def r [symmetric]
    by (simp add: process_block_def Let_def sha_tuple_def add.commute)
qed

lemma fold_chunks_shift:
  "fold (\<lambda>i. f (take 64 (drop (64 * i) (xs :: 'a list)))) [Suc 0..<Suc n] H =
   fold (\<lambda>i. f (take 64 (drop (64 * i) (drop 64 xs)))) [0..<n] H"
proof -
  have "[Suc 0..<Suc n] = map Suc [0..<n]" by (simp add: map_Suc_upt)
  then show ?thesis by (simp add: fold_map comp_def add.commute del: upt_Suc)
qed

lemma process_chunks_fips:
  "length msg = 64 * n \<Longrightarrow>
   sha_tuple (process_chunks msg h) =
     fold (\<lambda>i. fips_block (take 64 (drop (64 * i) msg))) [0..<n] (sha_tuple h)"
proof (induction n arbitrary: msg h)
  case 0
  then show ?case by (simp add: process_chunks.simps)
next
  case (Suc n)
  have "msg \<noteq> []" using Suc.prems by auto
  then have "sha_tuple (process_chunks msg h) =
      sha_tuple (process_chunks (drop 64 msg) (process_block (take 64 msg) h))"
    by (subst process_chunks.simps) simp
  also have "\<dots> = fold (\<lambda>i. fips_block (take 64 (drop (64 * i) (drop 64 msg)))) [0..<n]
      (fips_block (take 64 msg) (sha_tuple h))"
    using Suc.IH [of "drop 64 msg"] Suc.prems by (simp add: process_block_fips)
  also have "\<dots> = fold (\<lambda>i. fips_block (take 64 (drop (64 * i) msg))) [0..<Suc n] (sha_tuple h)"
    unfolding fold_chunks_shift [symmetric] by (simp add: upt_conv_Cons del: upt_Suc)
  finally show ?case .
qed

subsection \<open>Padding\<close>

lemma pad_len_spec:
  "n \<le> pad_len n \<and> pad_len n mod 64 = 56 \<and> (\<forall>m. n \<le> m \<and> m < pad_len n \<longrightarrow> m mod 64 \<noteq> 56)"
proof (induction n rule: pad_len.induct)
  case (1 n)
  show ?case
  proof (cases "n mod 64 = 56")
    case True
    then show ?thesis by (subst (1 2 3) pad_len.simps) simp
  next
    case False
    then have "pad_len n = pad_len (Suc n)" by (subst pad_len.simps) simp
    then show ?thesis using 1 False
      by (metis Suc_leD Suc_leI le_neq_implies_less)
  qed
qed

lemma fips_zero_bytes_pad_len: "fips_zero_bytes n = pad_len (n + 1) - (n + 1)"
  unfolding fips_zero_bytes_def
proof (rule Least_equality)
  show "(n + 1 + (pad_len (n + 1) - (n + 1))) mod 64 = 56"
    using pad_len_spec [of "n + 1"] by simp
next
  fix k
  assume "(n + 1 + k) mod 64 = 56"
  then have "\<not> n + 1 + k < pad_len (n + 1)"
    using pad_len_spec [of "n + 1"] by (metis le_add1)
  then show "pad_len (n + 1) - (n + 1) \<le> k" by simp
qed

lemma write_length_append:
  "length xs = n \<Longrightarrow>
   write_length 8 n bl (xs @ replicate 8 0) = xs @ map (length_byte bl) [0..<8]"
  by (simp add: eval_nat_numeral Let_def list_update_append upt_rec)

lemma length_byte_of_nat:
  assumes "L < 2 ^ 64"
  shows "length_byte (of_nat L) i = of_nat (L div 256 ^ (7 - i))"
proof -
  have "unat (drop_bit (8 * (7 - i)) (of_nat L :: u64)) = L div 256 ^ (7 - i)"
    using assms by (simp only: unat_drop_bit_eq) (simp add: unsigned_of_nat take_bit_eq_mod drop_bit_eq_div pow256)
  then have "(ucast (drop_bit (8 * (7 - i)) (of_nat L :: u64)) :: byte) = of_nat (L div 256 ^ (7 - i))"
    by (metis of_nat_unat)
  then show ?thesis by (simp add: length_byte_def ucast_and_ff)
qed

lemma padded_message_fips:
  assumes "8 * length data < 2 ^ 64"
  shows "padded_message data = fips_pad data"
proof -
  define n where "n = length data"
  define z where "z = pad_len (Suc n) - Suc n"
  have p: "pad_len (Suc n) = n + 1 + z" using pad_len_spec [of "Suc n"] by (simp add: z_def)
  have "drop n (replicate (n + 1 + z + 8) (0 :: byte)) = 0 # replicate z 0 @ replicate 8 0"
    by (simp only: drop_replicate replicate_add [symmetric] replicate_Suc [symmetric]) simp
  then have "(data @ drop n (replicate (n + 1 + z + 8) 0))[n := 0x80] =
      (data @ [0x80] @ replicate z 0) @ replicate 8 0"
    by (simp add: n_def list_update_append)
  moreover have "write_length 8 (n + 1 + z) bl ((data @ [0x80] @ replicate z 0) @ replicate 8 0) =
      (data @ [0x80] @ replicate z 0) @ map (length_byte bl) [0..<8]" for bl
    by (rule write_length_append) (simp add: n_def)
  moreover have "map (length_byte (of_nat (n * 8))) [0..<8] = be_bytes 8 (8 * n)"
    using length_byte_of_nat [of "n * 8"] assms by (simp add: be_bytes_def n_def mult.commute)
  ultimately show ?thesis
    by (simp add: padded_message_def fips_pad_def Let_def fips_zero_bytes_pad_len p n_def [symmetric]
        del: write_length.simps)
qed

lemma length_be_bytes [simp]: "length (be_bytes n x) = n"
  by (simp add: be_bytes_def)

lemma length_fips_pad: "length (fips_pad data) = 64 * (length (fips_pad data) div 64)"
proof -
  let ?p = "pad_len (length data + 1)"
  have "length (fips_pad data) = ?p + 8"
    using pad_len_spec [of "length data + 1"] by (simp add: fips_pad_def fips_zero_bytes_pad_len)
  moreover have "(?p + 8) mod 64 = 0"
    using pad_len_spec [of "length data + 1"] by (simp add: mod_add_left_eq [symmetric])
  ultimately show ?thesis by auto
qed

lemma bytes_of_u32_be: "bytes_of_u32 x = be_bytes 4 (unat x)"
proof -
  have "(ucast (drop_bit n x) :: byte) = of_nat (unat x div 2 ^ n)" for n
    by (metis drop_bit_eq_div of_nat_unat unat_drop_bit_eq)
  then show ?thesis
    unfolding bytes_of_u32_def ucast_and_ff be_bytes_def
    by (simp add: upt_rec)
qed

lemma sha_result_bytes:
  "hash_bytes (sha_result s) =
     bytes_of_u32 (sa s) @ bytes_of_u32 (sb s) @ bytes_of_u32 (sc s) @ bytes_of_u32 (sd s) @
     bytes_of_u32 (se s)"
  by (simp add: sha_result_def)

lemma sha1_hash_fips:
  assumes "8 * length data < 2 ^ 64"
  shows "hash_bytes (SHA1_hash_bytes data) = fips_sha1 data"
proof -
  let ?p = "fips_pad data"
  let ?H = "process_chunks ?p sha_init"
  have "fold (\<lambda>i. fips_block (take 64 (drop (64 * i) ?p))) [0..<length ?p div 64]
      (sha_tuple sha_init) = sha_tuple ?H"
    by (rule process_chunks_fips [symmetric]) (rule length_fips_pad)
  moreover have "sha_tuple sha_init = (0x67452301, 0xefcdab89, 0x98badcfe, 0x10325476, 0xc3d2e1f0)"
    by (simp add: sha_tuple_def sha_init_def)
  ultimately show ?thesis
    using assms
    by (simp add: SHA1_hash_bytes_def padded_message_fips sha_result_bytes bytes_of_u32_be fips_sha1_def
        Let_def sha_tuple_def)
qed

section \<open>Properties\<close>

text \<open>
  C16. On every message whose length in bits fits 64 bits, the digest the code computes is the
  SHA-1 digest of the standard.
\<close>

theorem SHA1_implements_standard:
  assumes "8 * length msg < 2 ^ 64"
  shows "hash_bytes (SHA1_hash_bytes msg) = fips_sha1 msg"
  using assms by (rule sha1_hash_fips)

theorem SHA1_implements_standard_witness:
  "hash_bytes (SHA1_hash_bytes [0x61, 0x62, 0x63]) = fips_sha1 [0x61, 0x62, 0x63]"
  by (rule SHA1_implements_standard) simp


end
