(* ===== verification/Node_Info.thy ===== *)
theory Node_Info
  imports Sha1
begin

text \<open>
  \<open>NodeInfo\<close> of \<open>src/include/chord.h\<close>: identifier, address and port of a node. A
  \<open>shared_ptr<NodeInfo>\<close> is a \<open>NodeInfo option\<close>, \<open>nullptr\<close> being \<open>None\<close>. The comparison
  \<open>operator==\<close> looks at the identifier only.
\<close>

record NodeInfo =
  ni_id :: Hash160
  ni_address :: string
  ni_port :: u16

type_synonym node_ptr = "NodeInfo option"

definition node_eq :: "NodeInfo \<Rightarrow> NodeInfo \<Rightarrow> bool" where
  "node_eq a b = hash_eq (ni_id a) (ni_id b)"

definition node_ne :: "NodeInfo \<Rightarrow> NodeInfo \<Rightarrow> bool" where
  "node_ne a b = (\<not> node_eq a b)"

definition node_to_string :: "NodeInfo \<Rightarrow> string" where
  "node_to_string n =
     host_port (ni_address n) (ni_port n) @ '' ['' @ take 8 (hash_to_string (ni_id n)) @ ''...]''"

definition from_address :: "string \<Rightarrow> u16 \<Rightarrow> NodeInfo" where
  "from_address addr p = \<lparr>ni_id = SHA1_hash (host_port addr p), ni_address = addr, ni_port = p\<rparr>"

text \<open>\<open>address + ":" + std::to_string(port)\<close>: the key of the failure detector and the wire form.\<close>

definition node_key :: "NodeInfo \<Rightarrow> string" where
  "node_key n = host_port (ni_address n) (ni_port n)"

lemma node_eq_iff [simp]: "node_eq a b \<longleftrightarrow> ni_id a = ni_id b"
  by (simp add: node_eq_def)

lemma node_ne_iff [simp]: "node_ne a b \<longleftrightarrow> ni_id a \<noteq> ni_id b"
  by (simp add: node_ne_def)

lemma from_address_select [simp]:
  "ni_address (from_address a p) = a" "ni_port (from_address a p) = p" "node_key (from_address a p) = host_port a p"
  by (simp_all add: from_address_def node_key_def)

text \<open>A node that came from its address: every node the program makes is one.\<close>

definition node_wf :: "NodeInfo \<Rightarrow> bool" where
  "node_wf n \<longleftrightarrow> n = from_address (ni_address n) (ni_port n) \<and> CHR '':'' \<notin> set (ni_address n)"

lemma node_wf_from_address [simp]: "node_wf (from_address a p) \<longleftrightarrow> CHR '':'' \<notin> set a"
  by (simp add: node_wf_def)

text \<open>\<open>find(':')\<close>, \<open>substr\<close> and \<open>stoi\<close> as the readers of a node key use them.\<close>

definition parse_node :: "string \<Rightarrow> fault + node_ptr" where
  "parse_node s =
     (case find_colon s of
        None \<Rightarrow> Inr None
      | Some colon_pos \<Rightarrow>
          (case stoi 10 (drop (Suc colon_pos) s) of
             Inl f \<Rightarrow> Inl f
           | Inr p \<Rightarrow> Inr (Some (from_address (take colon_pos s) (word_of_int p)))))"

lemma parse_node_key:
  assumes "node_wf n"
  shows "parse_node (node_key n) = Inr (Some n)"
proof -
  have c: "find_colon (node_key n) = Some (length (ni_address n))"
    using assms by (simp add: node_key_def find_colon_host_port node_wf_def)
  then show ?thesis
    using assms by (simp add: parse_node_def node_key_def node_wf_def)
qed

lemma node_key_inj: "node_wf a \<Longrightarrow> node_wf b \<Longrightarrow> node_key a = node_key b \<longleftrightarrow> a = b"
  by (metis Inr_inject option.inject parse_node_key)

end
