(* ===== verification/Failure_Detector.thy ===== *)
theory Failure_Detector
  imports Node_Info Client "HOL-Library.Signed_Division"
begin

text \<open>
  The failure detector of \<open>src/include/replication.h\<close> and \<open>src/src/replication.cpp\<close>: a table of
  node statuses by \<open>address:port\<close>. The steady clock counts nanoseconds from an arbitrary start;
  a default \<open>time_point\<close> is 0. The network part is the client library on the \<open>os\<close> record.
\<close>

section \<open>State\<close>

record FailureConfig =
  ping_interval_ms :: int
  ping_timeout_ms :: int
  failure_threshold :: int

definition failure_config_default :: FailureConfig where
  "failure_config_default = \<lparr>ping_interval_ms = 2000, ping_timeout_ms = 5000, failure_threshold = 3\<rparr>"

record NodeStatus =
  last_seen :: int
  consecutive_failures :: int
  is_suspected :: bool
  is_failed :: bool

definition NodeStatus0 :: NodeStatus where
  "NodeStatus0 = \<lparr>last_seen = 0, consecutive_failures = 0, is_suspected = False, is_failed = False\<rparr>"

record FailureDetector =
  fd_config :: FailureConfig
  node_statuses :: "(string \<times> NodeStatus) list"

definition failure_detector_new :: "FailureConfig \<Rightarrow> FailureDetector" where
  "failure_detector_new cfg = \<lparr>fd_config = cfg, node_statuses = []\<rparr>"

text \<open>\<open>node_statuses[node_key]\<close> creates a default status when there is none.\<close>

definition status_at :: "FailureDetector \<Rightarrow> string \<Rightarrow> NodeStatus" where
  "status_at fd key = (case map_of (node_statuses fd) key of Some st \<Rightarrow> st | None \<Rightarrow> NodeStatus0)"

definition set_status :: "FailureDetector \<Rightarrow> string \<Rightarrow> NodeStatus \<Rightarrow> FailureDetector" where
  "set_status fd key st = fd\<lparr>node_statuses := AList.update key st (node_statuses fd)\<rparr>"

section \<open>Operations\<close>

definition fd_ping_node_impl :: "'w os \<Rightarrow> NodeInfo \<Rightarrow> 'w \<Rightarrow> bool \<times> 'w" where
  "fd_ping_node_impl os node w =
     (case client_connect os (client_new (ni_address node) (ni_port node)) w of (_, c1, w1) \<Rightarrow>
      case client_ping os c1 w1 of (r, c2, w2) \<Rightarrow> (r, snd (client_disconnect os c2 w2)))"

text \<open>The locked part of \<open>ping_node\<close>; the clock is read only for a responsive node.\<close>

definition record_ping :: "FailureDetector \<Rightarrow> string \<Rightarrow> bool \<Rightarrow> int \<Rightarrow> FailureDetector" where
  "record_ping fd key is_responsive now =
     (let status = status_at fd key in
      if is_responsive
      then set_status fd key
             (status\<lparr>last_seen := now, consecutive_failures := 0, is_suspected := False, is_failed := False\<rparr>)
      else let status1 = status\<lparr>consecutive_failures := consecutive_failures status + 1\<rparr> in
        set_status fd key
          (if consecutive_failures status1 \<ge> failure_threshold (fd_config fd)
           then status1\<lparr>is_failed := True\<rparr>
           else if consecutive_failures status1 \<ge> failure_threshold (fd_config fd) sdiv 2
           then status1\<lparr>is_suspected := True\<rparr>
           else status1))"

definition fd_ping_node :: "'w os \<Rightarrow> node_ptr \<Rightarrow> FailureDetector \<Rightarrow> 'w \<Rightarrow> FailureDetector \<times> 'w" where
  "fd_ping_node os node fd w =
     (case node of
        None \<Rightarrow> (fd, w)
      | Some n \<Rightarrow>
          (case fd_ping_node_impl os n w of (is_responsive, w1) \<Rightarrow>
           if is_responsive
           then (case os_now os w1 of (now, w2) \<Rightarrow> (record_ping fd (node_key n) True now, w2))
           else (record_ping fd (node_key n) False 0, w1)))"

definition mark_node_responsive :: "'w os \<Rightarrow> node_ptr \<Rightarrow> FailureDetector \<Rightarrow> 'w \<Rightarrow> FailureDetector \<times> 'w" where
  "mark_node_responsive os node fd w =
     (case node of
        None \<Rightarrow> (fd, w)
      | Some n \<Rightarrow>
          (case os_now os w of (now, w1) \<Rightarrow>
           (set_status fd (node_key n)
              ((status_at fd (node_key n))\<lparr>last_seen := now, consecutive_failures := 0,
                  is_suspected := False, is_failed := False\<rparr>), w1)))"

definition mark_node_failed :: "node_ptr \<Rightarrow> FailureDetector \<Rightarrow> FailureDetector" where
  "mark_node_failed node fd =
     (case node of
        None \<Rightarrow> fd
      | Some n \<Rightarrow>
          set_status fd (node_key n)
            ((status_at fd (node_key n))\<lparr>is_failed := True,
                consecutive_failures := failure_threshold (fd_config fd)\<rparr>))"

definition is_node_failed :: "FailureDetector \<Rightarrow> node_ptr \<Rightarrow> bool" where
  "is_node_failed fd node =
     (case node of
        None \<Rightarrow> True
      | Some n \<Rightarrow>
          (case map_of (node_statuses fd) (node_key n) of None \<Rightarrow> False | Some st \<Rightarrow> is_failed st))"

definition is_node_suspected :: "FailureDetector \<Rightarrow> node_ptr \<Rightarrow> bool" where
  "is_node_suspected fd node =
     (case node of
        None \<Rightarrow> True
      | Some n \<Rightarrow>
          (case map_of (node_statuses fd) (node_key n) of None \<Rightarrow> False | Some st \<Rightarrow> is_suspected st))"

text \<open>The loop of \<open>get_failed_nodes\<close>: \<open>stoi\<close> may throw, a key without a colon is skipped.\<close>

fun collect_failed :: "(string \<times> NodeStatus) list \<Rightarrow> fault + NodeInfo list" where
  "collect_failed [] = Inr []"
| "collect_failed ((key, status) # entries) =
     (if is_failed status
      then case parse_node key of
             Inl f \<Rightarrow> Inl f
           | Inr p \<Rightarrow> (case collect_failed entries of
               Inl f \<Rightarrow> Inl f
             | Inr ns \<Rightarrow> Inr ((case p of None \<Rightarrow> [] | Some n \<Rightarrow> [n]) @ ns))
      else collect_failed entries)"

definition get_failed_nodes :: "FailureDetector \<Rightarrow> fault + NodeInfo list" where
  "get_failed_nodes fd = collect_failed (node_statuses fd)"

definition minutes30 :: int where
  "minutes30 = 30 * 60 * 10 ^ 9"

definition cleanup_at :: "int \<Rightarrow> int \<Rightarrow> FailureDetector \<Rightarrow> FailureDetector" where
  "cleanup_at max_age now fd =
     fd\<lparr>node_statuses := filter (\<lambda>(k, status). \<not> last_seen status < now - max_age) (node_statuses fd)\<rparr>"

definition cleanup_old_entries :: "'w os \<Rightarrow> int \<Rightarrow> FailureDetector \<Rightarrow> 'w \<Rightarrow> FailureDetector \<times> 'w" where
  "cleanup_old_entries os max_age fd w =
     (case os_now os w of (now, w1) \<Rightarrow> (cleanup_at max_age now fd, w1))"

section \<open>The table\<close>

lemma set_status_select [simp]:
  "map_of (node_statuses (set_status fd key st)) = (map_of (node_statuses fd))(key \<mapsto> st)"
  "fd_config (set_status fd key st) = fd_config fd"
  by (simp_all add: set_status_def)

lemma status_at_set [simp]: "status_at (set_status fd key st) k = (if k = key then st else status_at fd k)"
  by (simp add: status_at_def)

definition fd_wf :: "FailureDetector \<Rightarrow> bool" where
  "fd_wf fd \<longleftrightarrow> umap_wf (node_statuses fd) \<and> (\<forall>k \<in> fst ` set (node_statuses fd). \<exists>n. node_wf n \<and> k = node_key n)"

lemma fst_set_update: "fst ` set (AList.update k v m) = insert k (fst ` set m)"
  by (induction m) auto

lemma fd_wf_set_status: "fd_wf fd \<Longrightarrow> node_wf n \<Longrightarrow> fd_wf (set_status fd (node_key n) st)"
  by (auto simp: fd_wf_def set_status_def fst_set_update)

lemma fd_wf_new: "fd_wf (failure_detector_new cfg)"
  by (simp add: fd_wf_def failure_detector_new_def)

lemma fd_wf_cleanup: "fd_wf fd \<Longrightarrow> fd_wf (cleanup_at a now fd)"
  by (auto simp: fd_wf_def cleanup_at_def)

text \<open>The nodes the detector reports are exactly those whose status is failed; \<open>stoi\<close> does not throw.\<close>

lemma collect_failed_wf:
  assumes "\<forall>k \<in> fst ` set es. \<exists>n. node_wf n \<and> k = node_key n"
  shows "\<exists>ns. collect_failed es = Inr ns \<and> (\<forall>n \<in> set ns. node_wf n) \<and>
    map node_key ns = map fst (filter (\<lambda>e. is_failed (snd e)) es)"
  using assms
proof (induction es)
  case Nil
  then show ?case by simp
next
  case (Cons e es)
  obtain k st where e: "e = (k, st)" by fastforce
  obtain n where n: "node_wf n" "k = node_key n" using Cons.prems e by auto
  have "\<forall>k \<in> fst ` set es. \<exists>n. node_wf n \<and> k = node_key n" using Cons.prems by simp
  then obtain ns where ns: "collect_failed es = Inr ns" "\<forall>n \<in> set ns. node_wf n"
    "map node_key ns = map fst (filter (\<lambda>e. is_failed (snd e)) es)"
    using Cons.IH by blast
  then show ?case using e n parse_node_key [OF n(1)] by (cases "is_failed st") auto
qed

lemma get_failed_nodes_exact:
  assumes "fd_wf fd"
  shows "\<exists>ns. get_failed_nodes fd = Inr ns \<and> set ns = {n. node_wf n \<and> is_node_failed fd (Some n)}"
proof -
  obtain ns where ns: "get_failed_nodes fd = Inr ns" "\<forall>n \<in> set ns. node_wf n"
    "map node_key ns = map fst (filter (\<lambda>e. is_failed (snd e)) (node_statuses fd))"
    using collect_failed_wf [of "node_statuses fd"] assms by (auto simp: fd_wf_def get_failed_nodes_def)
  have keys: "k \<in> node_key ` set ns \<longleftrightarrow> (\<exists>st. map_of (node_statuses fd) k = Some st \<and> is_failed st)" for k
  proof -
    have "k \<in> node_key ` set ns \<longleftrightarrow> k \<in> set (map fst (filter (\<lambda>e. is_failed (snd e)) (node_statuses fd)))"
      using ns(3) by (metis list.set_map)
    also have "\<dots> \<longleftrightarrow> (\<exists>st. (k, st) \<in> set (node_statuses fd) \<and> is_failed st)" by force
    finally show ?thesis using assms by (auto simp: fd_wf_def map_of_eq_Some_iff)
  qed
  have "n \<in> set ns \<longleftrightarrow> node_wf n \<and> is_node_failed fd (Some n)" for n
  proof
    assume "n \<in> set ns"
    then show "node_wf n \<and> is_node_failed fd (Some n)"
      using ns(2) keys [of "node_key n"] by (auto simp: is_node_failed_def)
  next
    assume n: "node_wf n \<and> is_node_failed fd (Some n)"
    then have "node_key n \<in> node_key ` set ns"
      using keys by (auto simp: is_node_failed_def split: option.splits)
    then show "n \<in> set ns" using n ns(2) node_key_inj by auto
  qed
  then show ?thesis using ns(1) by blast
qed

section \<open>Histories of pings\<close>

text \<open>The outcomes of the pings of one node, oldest first, with the clock at each.\<close>

definition record_pings :: "FailureDetector \<Rightarrow> string \<Rightarrow> (bool \<times> int) list \<Rightarrow> FailureDetector" where
  "record_pings fd key outs = foldl (\<lambda>fd (b, now). record_ping fd key b now) fd outs"

definition failure_run :: "(bool \<times> int) list \<Rightarrow> nat" where
  "failure_run outs = length (takeWhile Not (rev (map fst outs)))"

lemma failure_run_snoc [simp]:
  "failure_run (outs @ [(b, now)]) = (if b then 0 else Suc (failure_run outs))"
  by (simp add: failure_run_def)

lemma fd_config_record_pings [simp]: "fd_config (record_pings fd key outs) = fd_config fd"
  by (induction outs rule: rev_induct) (auto simp: record_pings_def record_ping_def Let_def split: prod.splits)

definition history_status :: "int \<Rightarrow> nat \<Rightarrow> NodeStatus \<Rightarrow> bool" where
  "history_status threshold n st \<longleftrightarrow> consecutive_failures st = int n \<and>
     (is_failed st \<longleftrightarrow> threshold \<le> int n) \<and>
     (is_suspected st \<longleftrightarrow> (\<exists>c. 1 \<le> c \<and> c \<le> int n \<and> threshold sdiv 2 \<le> c \<and> c < threshold))"

lemma history_status_fail:
  assumes "history_status thr n (status_at fd key)" "failure_threshold (fd_config fd) = thr"
  shows "history_status thr (Suc n) (status_at (record_ping fd key False now) key)"
proof -
  have "(\<exists>c. 1 \<le> c \<and> c \<le> int (Suc n) \<and> thr sdiv 2 \<le> c \<and> c < thr) \<longleftrightarrow>
      (\<exists>c. 1 \<le> c \<and> c \<le> int n \<and> thr sdiv 2 \<le> c \<and> c < thr) \<or>
      thr sdiv 2 \<le> int (Suc n) \<and> int (Suc n) < thr" (is "?l \<longleftrightarrow> ?r")
  proof
    assume ?l
    then obtain c where c: "1 \<le> c" "c \<le> int (Suc n)" "thr sdiv 2 \<le> c" "c < thr" by blast
    then show ?r by (cases "c = int (Suc n)") auto
  next
    assume ?r
    then show ?l by (auto intro: exI [of _ "int (Suc n)"])
  qed
  then show ?thesis
    using assms by (auto simp: history_status_def record_ping_def Let_def)
qed

lemma history_status_ok:
  "0 < thr \<Longrightarrow> history_status thr 0 (status_at (record_ping fd key True now) key)"
  by (auto simp: history_status_def record_ping_def Let_def)

lemma history_status_pings:
  assumes "0 < failure_threshold (fd_config fd)" "map_of (node_statuses fd) key = None"
  shows "history_status (failure_threshold (fd_config fd)) (failure_run outs)
    (status_at (record_pings fd key outs) key)"
proof (induction outs rule: rev_induct)
  case Nil
  then show ?case
    using assms by (auto simp: history_status_def record_pings_def failure_run_def status_at_def NodeStatus0_def)
next
  case (snoc o1 outs)
  obtain b now where o: "o1 = (b, now)" by fastforce
  have r: "record_pings fd key (outs @ [(b, now)]) = record_ping (record_pings fd key outs) key b now"
    by (simp add: record_pings_def)
  show ?case
    unfolding o r using snoc assms(1) by (cases b) (simp_all add: history_status_ok history_status_fail)
qed

text \<open>Every operation changes the status of one key only.\<close>

lemma status_at_record_ping_other: "k \<noteq> key \<Longrightarrow> status_at (record_ping fd key b now) k = status_at fd k"
  by (simp add: record_ping_def Let_def)

text \<open>
  C23. A node that is pinged again and again is reported as failed exactly when its last
  \<open>failure_threshold\<close> pings all failed: one success resets the count. It is suspected
  exactly when the run of failures has reached half the threshold (at least one), for a threshold
  of at least two.
\<close>

theorem failure_detector_threshold:
  assumes "failure_threshold (fd_config fd) = thr" "2 \<le> thr"
    and "map_of (node_statuses fd) (node_key n) = None" "outs \<noteq> []"
  shows "(is_node_failed (record_pings fd (node_key n) outs) (Some n) \<longleftrightarrow> thr \<le> int (failure_run outs)) \<and>
    (is_node_suspected (record_pings fd (node_key n) outs) (Some n) \<longleftrightarrow>
       1 \<le> failure_run outs \<and> thr div 2 \<le> int (failure_run outs))"
proof -
  let ?fd = "record_pings fd (node_key n) outs"
  have h: "history_status thr (failure_run outs) (status_at ?fd (node_key n))"
    using history_status_pings [of fd "node_key n" outs] assms by simp
  have "map_of (node_statuses ?fd) (node_key n) = Some (status_at ?fd (node_key n))"
    using assms(4)
    by (cases outs rule: rev_cases)
       (auto simp: record_pings_def record_ping_def Let_def split: prod.splits)
  moreover have d: "thr sdiv 2 = thr div 2" using assms(2) by (simp add: signed_divide_int_def)
  moreover have "(\<exists>c. 1 \<le> c \<and> c \<le> int m \<and> thr div 2 \<le> c \<and> c < thr) \<longleftrightarrow> 1 \<le> m \<and> thr div 2 \<le> int m" for m
  proof
    assume "1 \<le> m \<and> thr div 2 \<le> int m"
    then show "\<exists>c. 1 \<le> c \<and> c \<le> int m \<and> thr div 2 \<le> c \<and> c < thr"
      using assms(2) by (intro exI [of _ "max 1 (thr div 2)"]) auto
  qed auto
  ultimately show ?thesis
    using h by (simp add: is_node_failed_def is_node_suspected_def history_status_def)
qed

theorem failure_detector_threshold_witness:
  "is_node_failed (record_pings (failure_detector_new failure_config_default) ''h:1'' [(False, 5), (False, 6), (False, 7)])
     (Some \<lparr>ni_id = mk_hash160 [], ni_address = ''h'', ni_port = 1\<rparr>) \<longleftrightarrow> 3 \<le> (3 :: int)"
proof -
  let ?n = "\<lparr>ni_id = mk_hash160 [], ni_address = ''h'', ni_port = 1\<rparr>"
  have "node_key ?n = ''h:1''"
    by (simp add: node_key_def host_port_def to_string_u16_def to_string_nat.simps digit_char_def char_of_def bit_0)
  then show ?thesis
    using failure_detector_threshold [of "failure_detector_new failure_config_default" 3 ?n
        "[(False, 5), (False, 6), (False, 7)]"]
    by (simp add: failure_detector_new_def failure_config_default_def failure_run_def)
qed

section \<open>Cleaning up\<close>

lemma map_of_cleanup:
  assumes "umap_wf (node_statuses fd)"
  shows "map_of (node_statuses (cleanup_at a now fd)) k =
    (case map_of (node_statuses fd) k of
       None \<Rightarrow> None | Some st \<Rightarrow> if last_seen st < now - a then None else Some st)"
proof -
  have "umap_wf m \<Longrightarrow> map_of (filter (\<lambda>(k, st). P st) m) k =
      (case map_of m k of None \<Rightarrow> None | Some st \<Rightarrow> if P st then Some st else None)" for P and m :: "(string \<times> NodeStatus) list"
    by (induction m) (force split: option.splits dest: map_of_SomeD)+
  from this [OF assms, of "\<lambda>st. \<not> last_seen st < now - a"] show ?thesis
    by (simp add: cleanup_at_def split: option.splits)
qed

text \<open>One round of the detection loop for a node that does not answer.\<close>

definition dead_round :: "string \<Rightarrow> FailureDetector \<Rightarrow> int \<Rightarrow> FailureDetector" where
  "dead_round key fd now = cleanup_at minutes30 now (record_ping fd key False 0)"

lemma dead_round_forgets:
  assumes "umap_wf (node_statuses fd)" "map_of (node_statuses fd) key = None" "minutes30 < now"
  shows "umap_wf (node_statuses (dead_round key fd now)) \<and>
    map_of (node_statuses (dead_round key fd now)) key = None \<and>
    fd_config (dead_round key fd now) = fd_config fd"
proof -
  let ?fd = "record_ping fd key False 0"
  have wf: "umap_wf (node_statuses ?fd)"
    using assms(1) by (simp add: record_ping_def Let_def set_status_def)
  have "\<exists>st. map_of (node_statuses ?fd) key = Some st \<and> last_seen st = 0"
    using assms(2) by (simp add: record_ping_def Let_def status_at_def NodeStatus0_def)
  then have "map_of (node_statuses (dead_round key fd now)) key = None"
    using map_of_cleanup [OF wf, of minutes30 now key] assms(3) by (auto simp: dead_round_def)
  moreover have "fd_config ?fd = fd_config fd" by (simp add: record_ping_def Let_def)
  ultimately show ?thesis using wf by (simp add: dead_round_def cleanup_at_def)
qed



end
