(* ===== verification/Replication.thy ===== *)
theory Replication
  imports Node_Info Session
begin

text \<open>
  The replication manager of \<open>src/include/replication.h\<close> and \<open>src/src/replication.cpp\<close>: synchronous
  and queued replication of puts and deletes to a list of replicas, reads with fallback, and the
  re-replication after a failure. Requests go through the client library; \<open>std::exception\<close>s that
  it throws are caught where the code catches them. \<open>static_cast<int>(replicas.size())\<close> is the
  length: a vector of more than \<open>2^31 - 1\<close> pointers does not occur.
\<close>

section \<open>State\<close>

record ReplicationConfig =
  replication_factor :: int
  sync_timeout_ms :: int
  max_retries :: int
  enable_async_replication :: bool

definition replication_config_default :: ReplicationConfig where
  "replication_config_default = \<lparr>replication_factor = 3, sync_timeout_ms = 5000, max_retries = 3,
     enable_async_replication = False\<rparr>"

datatype TaskType = PUT_TASK | DELETE_TASK

record ReplicationTask =
  task_type :: TaskType
  task_key :: string
  task_value :: bytes
  task_replicas :: "node_ptr list"
  retry_count :: int

definition replication_task :: "TaskType \<Rightarrow> string \<Rightarrow> bytes \<Rightarrow> node_ptr list \<Rightarrow> ReplicationTask" where
  "replication_task t k v r =
     \<lparr>task_type = t, task_key = k, task_value = v, task_replicas = r, retry_count = 0\<rparr>"

record ReplicationManager =
  rm_config :: ReplicationConfig
  replication_timestamps :: "(string \<times> int) list"
  pending_tasks :: "ReplicationTask list"
  rm_running :: bool

text \<open>The constructor starts the processing thread when the configuration asks for it.\<close>

definition start_async_processing :: "ReplicationManager \<Rightarrow> ReplicationManager" where
  "start_async_processing rm = (if rm_running rm then rm else rm\<lparr>rm_running := True\<rparr>)"

definition stop_async_processing :: "ReplicationManager \<Rightarrow> ReplicationManager" where
  "stop_async_processing rm = (if \<not> rm_running rm then rm else rm\<lparr>rm_running := False\<rparr>)"

definition replication_manager_new :: "ReplicationConfig \<Rightarrow> ReplicationManager" where
  "replication_manager_new cfg =
     (let rm = \<lparr>rm_config = cfg, replication_timestamps = [], pending_tasks = [], rm_running = False\<rparr> in
      if enable_async_replication cfg then start_async_processing rm else rm)"

definition set_replication_factor :: "int \<Rightarrow> ReplicationManager \<Rightarrow> ReplicationManager" where
  "set_replication_factor f rm = rm\<lparr>rm_config := (rm_config rm)\<lparr>replication_factor := f\<rparr>\<rparr>"

definition get_replication_factor :: "ReplicationManager \<Rightarrow> int" where
  "get_replication_factor rm = replication_factor (rm_config rm)"

definition get_replication_count :: "ReplicationManager \<Rightarrow> nat" where
  "get_replication_count rm = length (replication_timestamps rm)"

section \<open>Requests to one replica\<close>

text \<open>An exception of the client is caught and counts as failure; the destructor closes the socket.\<close>

definition send_replication_request ::
  "'w os \<Rightarrow> NodeInfo \<Rightarrow> string \<Rightarrow> string \<Rightarrow> bytes \<Rightarrow> 'w \<Rightarrow> bool \<times> 'w" where
  "send_replication_request os target operation key value w =
     (case client_connect os (client_new (ni_address target) (ni_port target)) w of (ok, c, w1) \<Rightarrow>
      if \<not> ok then (False, snd (client_disconnect os c w1))
      else if operation = ''PUT''
      then case client_put os c key value w1 of (r, c2, w2) \<Rightarrow> (r = Inr True, snd (client_disconnect os c2 w2))
      else if operation = ''DELETE''
      then case client_remove os c key w1 of (r, c2, w2) \<Rightarrow> (r = Inr True, snd (client_disconnect os c2 w2))
      else (False, snd (client_disconnect os c w1)))"

definition rm_ping_node :: "'w os \<Rightarrow> NodeInfo \<Rightarrow> 'w \<Rightarrow> bool \<times> 'w" where
  "rm_ping_node os node w =
     (case client_connect os (client_new (ni_address node) (ni_port node)) w of (ok, c, w1) \<Rightarrow>
      if \<not> ok then (False, snd (client_disconnect os c w1))
      else case client_ping os c w1 of (r, c2, w2) \<Rightarrow> (r, snd (client_disconnect os c2 w2)))"

text \<open>\<open>!replicas[i] || replicas[i]->port == 0\<close>\<close>

fun usable :: "node_ptr \<Rightarrow> bool" where
  "usable None = False"
| "usable (Some n) = (ni_port n \<noteq> 0)"

text \<open>
  The loop over the first \<open>required\<close> replicas that \<open>replicate_put\<close>, \<open>replicate_delete\<close> and
  \<open>process_single_task\<close> share: the number of successful requests.
\<close>

fun replicate_loop ::
  "'w os \<Rightarrow> string \<Rightarrow> string \<Rightarrow> bytes \<Rightarrow> node_ptr list \<Rightarrow> int \<Rightarrow> 'w \<Rightarrow> int \<times> 'w" where
  "replicate_loop os operation key value [] successful w = (successful, w)"
| "replicate_loop os operation key value (None # rs) successful w =
     replicate_loop os operation key value rs successful w"
| "replicate_loop os operation key value (Some n # rs) successful w =
     (if ni_port n = 0 then replicate_loop os operation key value rs successful w
      else case send_replication_request os n operation key value w of (success, w1) \<Rightarrow>
        replicate_loop os operation key value rs (if success then successful + 1 else successful) w1)"

definition required_replications :: "ReplicationManager \<Rightarrow> node_ptr list \<Rightarrow> int" where
  "required_replications rm replicas =
     min (replication_factor (rm_config rm) - 1) (int (length replicas))"

definition enqueue_replication_task :: "ReplicationTask \<Rightarrow> ReplicationManager \<Rightarrow> ReplicationManager" where
  "enqueue_replication_task task rm = rm\<lparr>pending_tasks := pending_tasks rm @ [task]\<rparr>"

definition put_timestamp :: "string \<Rightarrow> int \<Rightarrow> ReplicationManager \<Rightarrow> ReplicationManager" where
  "put_timestamp key now rm = rm\<lparr>replication_timestamps := AList.update key now (replication_timestamps rm)\<rparr>"

definition erase_timestamp :: "string \<Rightarrow> ReplicationManager \<Rightarrow> ReplicationManager" where
  "erase_timestamp key rm = rm\<lparr>replication_timestamps := AList.delete key (replication_timestamps rm)\<rparr>"

section \<open>Replication of a put and of a delete\<close>

definition replicate_put ::
  "'w os \<Rightarrow> string \<Rightarrow> bytes \<Rightarrow> node_ptr list \<Rightarrow> ReplicationManager \<Rightarrow> 'w \<Rightarrow> bool \<times> ReplicationManager \<times> 'w" where
  "replicate_put os key value replicas rm w =
     (if enable_async_replication (rm_config rm)
      then let rm1 = enqueue_replication_task (replication_task PUT_TASK key value replicas) rm in
        case os_now os w of (now, w1) \<Rightarrow> (True, put_timestamp key now rm1, w1)
      else let required = required_replications rm replicas in
        case replicate_loop os ''PUT'' key value (take (nat required) replicas) 0 w of (successful, w1) \<Rightarrow>
        case os_now os w1 of (now, w2) \<Rightarrow> (successful = required, put_timestamp key now rm, w2))"

definition replicate_delete ::
  "'w os \<Rightarrow> string \<Rightarrow> node_ptr list \<Rightarrow> ReplicationManager \<Rightarrow> 'w \<Rightarrow> bool \<times> ReplicationManager \<times> 'w" where
  "replicate_delete os key replicas rm w =
     (if enable_async_replication (rm_config rm)
      then (True, erase_timestamp key
              (enqueue_replication_task (replication_task DELETE_TASK key [] replicas) rm), w)
      else let required = required_replications rm replicas in
        case replicate_loop os ''DELETE'' key [] (take (nat required) replicas) 0 w of (successful, w1) \<Rightarrow>
        (successful = required, erase_timestamp key rm, w1))"

text \<open>A read that tries the replicas in order; an exception goes on with the next replica.\<close>

fun get_from_replicas ::
  "'w os \<Rightarrow> string \<Rightarrow> bytes \<Rightarrow> node_ptr list \<Rightarrow> 'w \<Rightarrow> (bool \<times> bytes) \<times> 'w" where
  "get_from_replicas os key value [] w = ((False, value), w)"
| "get_from_replicas os key value (None # rs) w = get_from_replicas os key value rs w"
| "get_from_replicas os key value (Some n # rs) w =
     (if ni_port n = 0 then get_from_replicas os key value rs w
      else case client_connect os (client_new (ni_address n) (ni_port n)) w of (ok, c, w1) \<Rightarrow>
        if \<not> ok then get_from_replicas os key value rs (snd (client_disconnect os c w1))
        else case client_get os c key value w1 of (r, c2, w2) \<Rightarrow>
          let w3 = snd (client_disconnect os c2 w2) in
          (case r of
             Inl f \<Rightarrow> get_from_replicas os key value rs w3
           | Inr (found, v) \<Rightarrow> if found then ((True, v), w3) else get_from_replicas os key v rs w3))"

text \<open>The two loops of \<open>handle_replica_failure\<close>; the result is the number it reports.\<close>

fun first_new_replica ::
  "'w os \<Rightarrow> NodeInfo \<Rightarrow> string \<Rightarrow> bytes \<Rightarrow> node_ptr list \<Rightarrow> 'w \<Rightarrow> bool \<times> 'w" where
  "first_new_replica os failed_node key value [] w = (False, w)"
| "first_new_replica os failed_node key value (None # rs) w = first_new_replica os failed_node key value rs w"
| "first_new_replica os failed_node key value (Some n # rs) w =
     (if ni_port n = 0 \<or> node_eq n failed_node then first_new_replica os failed_node key value rs w
      else case send_replication_request os n ''PUT'' key value w of (success, w1) \<Rightarrow>
        if success then (True, w1) else first_new_replica os failed_node key value rs w1)"

fun handle_replica_failure ::
  "'w os \<Rightarrow> NodeInfo \<Rightarrow> node_ptr list \<Rightarrow> (string \<times> bytes) list \<Rightarrow> int \<Rightarrow> 'w \<Rightarrow> int \<times> 'w" where
  "handle_replica_failure os failed_node new_replicas [] successful w = (successful, w)"
| "handle_replica_failure os failed_node new_replicas ((key, value) # entries) successful w =
     (case first_new_replica os failed_node key value new_replicas w of (success, w1) \<Rightarrow>
      handle_replica_failure os failed_node new_replicas entries
        (if success then successful + 1 else successful) w1)"

section \<open>The queue\<close>

definition operation_name :: "TaskType \<Rightarrow> string" where
  "operation_name t = (case t of PUT_TASK \<Rightarrow> ''PUT'' | DELETE_TASK \<Rightarrow> ''DELETE'')"

text \<open>For a delete the code passes no value, and the request has none.\<close>

definition process_single_task ::
  "'w os \<Rightarrow> ReplicationManager \<Rightarrow> ReplicationTask \<Rightarrow> 'w \<Rightarrow> bool \<times> 'w" where
  "process_single_task os rm task w =
     (let required = required_replications rm (task_replicas task) in
      case replicate_loop os (operation_name (task_type task)) (task_key task)
             (case task_type task of PUT_TASK \<Rightarrow> task_value task | DELETE_TASK \<Rightarrow> [])
             (take (nat required) (task_replicas task)) 0 w of
        (successful, w1) \<Rightarrow> (successful \<ge> required, w1))"

text \<open>
  One turn of the inner loop: take the front task, process it without the lock, queue it again
  after a failure while retries are left.
\<close>

definition process_front ::
  "'w os \<Rightarrow> ReplicationTask \<Rightarrow> ReplicationTask list \<Rightarrow> ReplicationManager \<Rightarrow> 'w \<Rightarrow> ReplicationManager \<times> 'w" where
  "process_front os task rest rm w =
     (let rm1 = rm\<lparr>pending_tasks := rest\<rparr> in
      case process_single_task os rm1 task w of (success, w1) \<Rightarrow>
      if \<not> success \<and> retry_count task < max_retries (rm_config rm1)
      then (enqueue_replication_task (task\<lparr>retry_count := retry_count task + 1\<rparr>) rm1, w1)
      else (rm1, w1))"

text \<open>The attempts a task has left, and the loop, which runs while \<open>running\<close> holds.\<close>

definition attempts_left :: "ReplicationConfig \<Rightarrow> ReplicationTask \<Rightarrow> nat" where
  "attempts_left cfg task = Suc (nat (max_retries cfg - retry_count task))"

lemma rm_config_enqueue [simp]: "rm_config (enqueue_replication_task t rm) = rm_config rm"
  by (simp add: enqueue_replication_task_def)

lemma process_front_config: "rm_config (fst (process_front os t ts rm w)) = rm_config rm"
  by (simp add: process_front_def Let_def split: prod.splits)

lemma process_front_decreases:
  assumes "pending_tasks rm = t # ts"
  shows "sum_list (map (attempts_left (rm_config rm)) (pending_tasks (fst (process_front os t ts rm w))))
    < sum_list (map (attempts_left (rm_config rm)) (pending_tasks rm))"
  using assms
  by (auto simp: process_front_def enqueue_replication_task_def attempts_left_def Let_def split: prod.splits)

function process_replication_queue ::
  "'w os \<Rightarrow> ReplicationManager \<Rightarrow> 'w \<Rightarrow> ReplicationManager \<times> 'w" where
  "process_replication_queue os rm w =
     (if rm_running rm
      then case pending_tasks rm of
             [] \<Rightarrow> (rm, w)
           | t # ts \<Rightarrow>
               (case process_front os t ts rm w of (rm1, w1) \<Rightarrow> process_replication_queue os rm1 w1)
      else (rm, w))"
  by pat_completeness auto
termination
proof (relation "measure (\<lambda>(os, rm, w). sum_list (map (attempts_left (rm_config rm)) (pending_tasks rm)))", goal_cases)
  case (2 os rm w t ts rm1 w1)
  then show ?case
    using process_front_decreases [of rm t ts os w] process_front_config [of os t ts rm w]
    by (simp add: case_prod_beta)
qed simp

declare process_replication_queue.simps [simp del]

lemma process_front_running: "rm_running (fst (process_front os t ts rm w)) = rm_running rm"
  by (simp add: process_front_def enqueue_replication_task_def Let_def split: prod.splits)

lemma process_replication_queue_empties:
  "rm_running rm \<Longrightarrow> pending_tasks (fst (process_replication_queue os rm w)) = []"
proof (induction os rm w rule: process_replication_queue.induct)
  case (1 os rm w)
  show ?case
  proof (cases "pending_tasks rm")
    case Nil
    then show ?thesis using 1 by (simp add: process_replication_queue.simps)
  next
    case (Cons t ts)
    obtain rm1 w1 where p: "process_front os t ts rm w = (rm1, w1)" by fastforce
    have "rm_running rm1" using process_front_running [of os t ts rm w] p 1(2) by simp
    then show ?thesis
      using 1 Cons p by (subst process_replication_queue.simps) simp
  qed
qed

section \<open>Counting successes\<close>

lemma replicate_loop_bounds:
  "successful \<le> fst (replicate_loop os operation key v rs successful w) \<and>
   fst (replicate_loop os operation key v rs successful w) \<le> successful + int (length rs)"
proof (induction os operation key v rs successful w rule: replicate_loop.induct)
  case (3 os operation key v n rs successful w)
  show ?case
    using 3 by (cases "send_replication_request os n operation key v w") fastforce
next
  case (2 os operation key v rs successful w)
  then show ?case by auto
qed simp

text \<open>The loop reports the full number only when every replica of the list was usable and answered.\<close>

fun all_stored :: "'w os \<Rightarrow> string \<Rightarrow> string \<Rightarrow> bytes \<Rightarrow> node_ptr list \<Rightarrow> 'w \<Rightarrow> bool" where
  "all_stored os operation key value [] w = True"
| "all_stored os operation key value (None # rs) w = False"
| "all_stored os operation key value (Some n # rs) w =
     (ni_port n \<noteq> 0 \<and> fst (send_replication_request os n operation key value w) \<and>
      all_stored os operation key value rs (snd (send_replication_request os n operation key value w)))"

lemma replicate_loop_full:
  "fst (replicate_loop os operation key v rs successful w) = successful + int (length rs) \<longleftrightarrow>
     all_stored os operation key v rs w"
proof (induction os operation key v rs successful w rule: replicate_loop.induct)
  case (2 os operation key v rs successful w)
  then show ?case using replicate_loop_bounds [of successful os operation key v rs w] by simp
next
  case (3 os operation key v n rs successful w)
  obtain b w1 where p: "send_replication_request os n operation key v w = (b, w1)" by fastforce
  consider "ni_port n = 0" | "ni_port n \<noteq> 0" "\<not> b" | "ni_port n \<noteq> 0" b by blast
  then show ?case
  proof cases
    case 1
    then show ?thesis using replicate_loop_bounds [of successful os operation key v rs w] by simp
  next
    case 2
    then show ?thesis using replicate_loop_bounds [of successful os operation key v rs w1] p by simp
  next
    case 3
    then have "ni_port n \<noteq> 0" b by simp_all
    then show ?thesis using "3.IH"(2) [OF _ p [symmetric]] p by (simp add: ac_simps)
  qed
qed simp

lemma all_stored_Some: "all_stored os operation key v rs w \<Longrightarrow> r \<in> set rs \<Longrightarrow> \<exists>n. r = Some n"
  by (induction os operation key v rs w rule: all_stored.induct) auto

section \<open>What a successful replication means\<close>

text \<open>
  The interface between the manager and the replicas: \<open>holds\<close> is what a replica stores. A successful
  put is stored, and no put changes another key or another replica.
\<close>

locale replica_net =
  fixes os :: "'w os" and holds :: "'w \<Rightarrow> NodeInfo \<Rightarrow> string \<rightharpoonup> bytes"
    and idle :: "'w \<Rightarrow> bool" and small :: "string \<Rightarrow> bytes \<Rightarrow> bool"
  assumes put_stored: "idle w \<Longrightarrow> small k v \<Longrightarrow>
      send_replication_request os n ''PUT'' k v w = (True, w') \<Longrightarrow> holds w' n k = Some v"
    and put_frame: "idle w \<Longrightarrow> small k v \<Longrightarrow>
      send_replication_request os n ''PUT'' k v w = (b, w') \<Longrightarrow>
      idle w' \<and> (holds w' m j = holds w m j \<or> j = k \<and> holds w' m j = Some v)"
    and now_holds: "idle w \<Longrightarrow> idle (snd (os_now os w)) \<and> holds (snd (os_now os w)) = holds w"
begin

lemma loop_keeps:
  assumes "idle w" "small k v"
  shows "idle (snd (replicate_loop os ''PUT'' k v rs i w)) \<and>
    (holds (snd (replicate_loop os ''PUT'' k v rs i w)) m j = holds w m j \<or>
     j = k \<and> holds (snd (replicate_loop os ''PUT'' k v rs i w)) m j = Some v)"
  using assms(1)
proof (induction rs arbitrary: i w)
  case Nil
  then show ?case by simp
next
  case (Cons r rs)
  show ?case
  proof (cases r)
    case None
    then show ?thesis using Cons by simp
  next
    case (Some n)
    obtain b w1 where p: "send_replication_request os n ''PUT'' k v w = (b, w1)" by fastforce
    have w1: "idle w1" "holds w1 m j = holds w m j \<or> j = k \<and> holds w1 m j = Some v"
      using put_frame [OF Cons.prems assms(2) p] by blast+
    show ?thesis
    proof (cases "ni_port n = 0")
      case True
      then show ?thesis using Some Cons.IH [OF Cons.prems, of i] by simp
    next
      case False
      then show ?thesis using Some p Cons.IH [OF w1(1), of "if b then i + 1 else i"] w1(2) by auto
    qed
  qed
qed

lemma loop_all_stored:
  assumes "idle w" "small k v" "all_stored os ''PUT'' k v rs w" "Some n \<in> set rs"
  shows "holds (snd (replicate_loop os ''PUT'' k v rs i w)) n k = Some v"
  using assms(1,3,4)
proof (induction rs arbitrary: i w)
  case Nil
  then show ?case by simp
next
  case (Cons r rs)
  then obtain m where m: "r = Some m" "ni_port m \<noteq> 0" by (cases r) auto
  obtain b w1 where p: "send_replication_request os m ''PUT'' k v w = (b, w1)" by fastforce
  have b: b "all_stored os ''PUT'' k v rs w1" using Cons.prems(2) m p by simp_all
  have w1: "idle w1" using put_frame [OF Cons.prems(1) assms(2) p] by blast
  have s: "snd (replicate_loop os ''PUT'' k v (r # rs) i w) = snd (replicate_loop os ''PUT'' k v rs (i + 1) w1)"
    using m p b by simp
  show ?case
  proof (cases "Some n \<in> set rs")
    case True
    then show ?thesis using Cons.IH [OF w1 b(2)] s by simp
  next
    case False
    then have "n = m" using Cons.prems(3) m by simp
    then have "holds w1 n k = Some v" using put_stored [OF Cons.prems(1) assms(2)] p b by simp
    then show ?thesis using loop_keeps [OF w1 assms(2), of rs "i + 1" n k] s by auto
  qed
qed

lemma replicate_put_keeps:
  assumes "idle w" "small k v"
  shows "idle (snd (snd (replicate_put os k v replicas rm w)))"
proof -
  let ?rs = "take (nat (required_replications rm replicas)) replicas"
  obtain c w1 where l: "replicate_loop os ''PUT'' k v ?rs 0 w = (c, w1)" by fastforce
  have "idle w1" using loop_keeps [OF assms, of ?rs 0] l by simp
  then show ?thesis
    using l now_holds [of w] now_holds [of w1] assms(1) by (auto simp: replicate_put_def Let_def split: prod.splits)
qed

lemma replicate_put_all:
  assumes "idle w" "small k v" "\<not> enable_async_replication (rm_config rm)"
    and "replicate_put os k v replicas rm w = (True, rm', w')"
    and "i < length replicas" "int i < replication_factor (rm_config rm) - 1"
  shows "\<exists>n. replicas ! i = Some n \<and> holds w' n k = Some v"
proof -
  let ?q = "required_replications rm replicas"
  let ?rs = "take (nat ?q) replicas"
  obtain c w1 where l: "replicate_loop os ''PUT'' k v ?rs 0 w = (c, w1)" by fastforce
  have q: "0 \<le> ?q" "?q \<le> int (length replicas)" "int i < ?q"
    using assms(5,6) by (auto simp: required_replications_def)
  have c: "c = ?q" and w': "w' = snd (os_now os w1)"
    using assms(3,4) l by (auto simp: replicate_put_def Let_def split: prod.splits)
  have "c = 0 + int (length ?rs)" using c q by simp
  then have all: "all_stored os ''PUT'' k v ?rs w"
    using replicate_loop_full [of os "''PUT''" k v ?rs 0 w] l by simp
  have i: "i < length ?rs" "?rs ! i = replicas ! i" using q assms(5) by auto
  obtain n where n: "replicas ! i = Some n"
    using all_stored_Some [OF all] i nth_mem [OF i(1)] by auto
  have "Some n \<in> set ?rs" using nth_mem [OF i(1)] i(2) n by simp
  then have "holds w1 n k = Some v"
    using loop_all_stored [OF assms(1,2) all, of n 0] l by simp
  moreover have "idle w1" using loop_keeps [OF assms(1,2), of ?rs 0 n k] l by simp
  ultimately show ?thesis using n w' now_holds by auto
qed

end

section \<open>Replicas that are base servers\<close>

definition node_endpoint :: "NodeInfo \<Rightarrow> endpoint" where
  "node_endpoint n = (ni_address n, ni_port n)"

definition net_holds :: "net \<Rightarrow> NodeInfo \<Rightarrow> string \<rightharpoonup> bytes" where
  "net_holds w n k =
     (case nodes w (node_endpoint n) of None \<Rightarrow> None | Some s \<Rightarrow> storage_map (storage s) k)"

definition net_idle :: "net \<Rightarrow> bool" where
  "net_idle w \<longleftrightarrow> conn w = None \<and> (\<forall>e s. nodes w e = Some s \<longrightarrow> store_values_small (storage s))"

lemma net_idle_small: "net_idle w \<Longrightarrow> nodes w e = Some s \<Longrightarrow> store_values_small (storage s)"
  by (cases e) (auto simp: net_idle_def)

lemma client_put_call:
  "client_call os c (Put_call k v) w = (Inr (b, x), c', w') \<Longrightarrow> client_put os c k v w = (Inr b, c', w')"
  by (cases "client_put os c k v w") (auto simp: map_sum_def split: sum.splits)

lemma net_put_up:
  assumes "net_idle w" "call_small (Put_call k v)" "nodes w (node_endpoint n) = Some s"
  shows "\<exists>w'. send_replication_request (net_os cs) n ''PUT'' k v w = (True, w') \<and> conn w' = None \<and>
    clock w' = clock w \<and> nodes w' = (nodes w)(node_endpoint n \<mapsto> server_step s (call_request (Put_call k v)))"
proof -
  let ?x = "Put_call k v"
  have e: "nodes w (ni_address n, ni_port n) = Some s" using assms(3) by (simp add: node_endpoint_def)
  obtain c w1 w2 w3 where c: "client_connect (net_os cs) (client_new (ni_address n) (ni_port n)) w = (True, c, w1)"
    "client_call (net_os cs) c ?x w1 = (Inr (True, []), c, w2)"
    "snd (client_disconnect (net_os cs) c w2) = w3" "conn w3 = None" "clock w3 = clock w"
    "nodes w3 = (nodes w)(node_endpoint n \<mapsto> server_step s (call_request ?x))"
    using net_single_call [OF e net_idle_small [OF assms(1,3)] assms(2), of cs] by (auto simp: node_endpoint_def)
  then show ?thesis using client_put_call [OF c(2)] by (simp add: send_replication_request_def)
qed

lemma net_put_down:
  assumes "net_idle w" "nodes w (node_endpoint n) = None"
  shows "send_replication_request (net_os cs) n ''PUT'' k v w = (False, w)"
proof -
  have "conn w = None" using assms(1) by (simp add: net_idle_def)
  then obtain c where "client_connect (net_os cs) (client_new (ni_address n) (ni_port n)) w = (False, c, w)"
    "\<not> connected c"
    using net_connect_refused [of w "ni_address n" "ni_port n" cs] assms(2) by (auto simp: node_endpoint_def)
  then show ?thesis by (simp add: send_replication_request_def client_disconnect_def)
qed

lemma put_step_storage:
  "storage (server_step s (call_request (Put_call k v))) = storage_put (storage s) k v"
  by (simp add: server_step_def server_dispatch_put)

lemma net_idle_put:
  assumes "net_idle w" "call_small (Put_call k v)" "nodes w e = Some s" "conn w' = None"
    and "nodes w' = (nodes w)(e \<mapsto> server_step s (call_request (Put_call k v)))"
  shows "net_idle w'"
proof -
  have "store_values_small (storage_put (storage s) k v)"
    using net_idle_small [OF assms(1,3)] assms(2) by (auto simp: store_values_small_def)
  then show ?thesis
    using assms(4,5) net_idle_small [OF assms(1)]
    by (auto simp: net_idle_def put_step_storage [simplified])
qed

interpretation net_replicas: replica_net "net_os cs" net_holds net_idle "\<lambda>k v. call_small (Put_call k v)" for cs
proof unfold_locales
  fix w w' n k v b m j
  assume i: "net_idle w" and small: "call_small (Put_call k v)"
  {
    assume p: "send_replication_request (net_os cs) n ''PUT'' k v w = (True, w')"
    show "net_holds w' n k = Some v"
    proof (cases "nodes w (node_endpoint n)")
      case None
      then show ?thesis using net_put_down [OF i None, of cs k v] p by simp
    next
      case (Some s)
      then show ?thesis using net_put_up [OF i small Some, of cs] p
        by (auto simp: net_holds_def put_step_storage [simplified])
    qed
  }
  assume p: "send_replication_request (net_os cs) n ''PUT'' k v w = (b, w')"
  show "net_idle w' \<and> (net_holds w' m j = net_holds w m j \<or> j = k \<and> net_holds w' m j = Some v)"
  proof (cases "nodes w (node_endpoint n)")
    case None
    then show ?thesis using net_put_down [OF i None, of cs k v] p i by simp
  next
    case (Some s)
    then show ?thesis
      using net_put_up [OF i small Some, of cs] p net_idle_put [OF i small Some, of w']
      by (auto simp: net_holds_def put_step_storage [simplified])
  qed
qed (simp add: net_idle_def net_holds_def fun_eq_iff)

text \<open>
  Synchronous replication keeps its promise: when \<open>replicate_put\<close> returns true, each of the first
  \<open>replication_factor - 1\<close> replicas of the list exists and its server holds the new value, over any
  network of base servers and whichever of them are down.
\<close>

theorem replicate_put_stores:
  assumes "net_idle w" "call_small (Put_call k v)" "\<not> enable_async_replication (rm_config rm)"
    and "replicate_put (net_os cs) k v replicas rm w = (True, rm', w')"
    and "i < length replicas" "int i < replication_factor (rm_config rm) - 1"
  shows "\<exists>n. replicas ! i = Some n \<and> net_holds w' n k = Some v"
  by (rule net_replicas.replicate_put_all [OF assms])

theorem replicate_put_stores_witness:
  "\<exists>rm' w'. replicate_put (net_os [2]) ''k'' [9] [Some \<lparr>ni_id = mk_hash160 [], ni_address = ''127.0.0.1'', ni_port = 8002\<rparr>]
       (replication_manager_new replication_config_default) example_net = (True, rm', w') \<and>
     net_holds w' \<lparr>ni_id = mk_hash160 [], ni_address = ''127.0.0.1'', ni_port = 8002\<rparr> ''k'' = Some [9]"
proof -
  let ?n = "\<lparr>ni_id = mk_hash160 [], ni_address = ''127.0.0.1'', ni_port = 8002\<rparr>"
  let ?rm = "replication_manager_new replication_config_default"
  have rm: "\<not> enable_async_replication (rm_config ?rm)" "replication_factor (rm_config ?rm) = 3"
    by (simp_all add: replication_manager_new_def replication_config_default_def)
  have i: "net_idle example_net"
    by (simp add: net_idle_def example_net_def server_new_def store_values_small_def)
  obtain w1 where "send_replication_request (net_os [2]) ?n ''PUT'' ''k'' [9] example_net = (True, w1)"
    using net_put_up [OF i, of "''k''" "[9]" ?n "server_new 8002" "[2]"]
    by (auto simp: example_net_def node_endpoint_def)
  then obtain rm' w' where p: "replicate_put (net_os [2]) ''k'' [9] [Some ?n] ?rm example_net = (True, rm', w')"
    using rm by (simp add: replicate_put_def required_replications_def Let_def)
  show ?thesis
    using replicate_put_stores [OF i _ rm(1) p, of 0] p rm(2) by simp
qed

text \<open>Which puts are acknowledged.\<close>

definition replica_up :: "net \<Rightarrow> node_ptr \<Rightarrow> bool" where
  "replica_up w r = (case r of None \<Rightarrow> False | Some n \<Rightarrow> ni_port n \<noteq> 0 \<and> nodes w (node_endpoint n) \<noteq> None)"

lemma all_stored_up:
  assumes "net_idle w" "call_small (Put_call k v)"
  shows "all_stored (net_os cs) ''PUT'' k v rs w \<longleftrightarrow> (\<forall>r \<in> set rs. replica_up w r)"
  using assms(1)
proof (induction rs arbitrary: w)
  case Nil
  then show ?case by simp
next
  case (Cons r rs)
  show ?case
  proof (cases "\<exists>n s. r = Some n \<and> nodes w (node_endpoint n) = Some s")
    case True
    then obtain n s where n: "r = Some n" "nodes w (node_endpoint n) = Some s" by blast
    obtain w1 where w1: "send_replication_request (net_os cs) n ''PUT'' k v w = (True, w1)" "conn w1 = None"
      "nodes w1 = (nodes w)(node_endpoint n \<mapsto> server_step s (call_request (Put_call k v)))"
      using net_put_up [OF Cons.prems assms(2) n(2), of cs] by blast
    have "replica_up w1 q = replica_up w q" for q
      using w1(3) n(2) by (simp add: replica_up_def split: option.split)
    then show ?thesis
      using Cons.IH [OF net_idle_put [OF Cons.prems assms(2) n(2) w1(2,3)]] w1(1) n
      by (simp add: replica_up_def)
  next
    case False
    then show ?thesis using net_put_down [OF Cons.prems, of _ cs k v] by (cases r) (auto simp: replica_up_def)
  qed
qed

lemma replicate_put_ack:
  assumes "net_idle w" "call_small (Put_call k v)" "\<not> enable_async_replication (rm_config rm)"
  shows "fst (replicate_put (net_os cs) k v replicas rm w) \<longleftrightarrow>
    1 \<le> replication_factor (rm_config rm) \<and>
    (\<forall>r \<in> set (take (nat (replication_factor (rm_config rm) - 1)) replicas). replica_up w r)"
proof -
  let ?q = "required_replications rm replicas" and ?f = "replication_factor (rm_config rm)"
  let ?rs = "take (nat ?q) replicas"
  have "fst (replicate_put (net_os cs) k v replicas rm w) \<longleftrightarrow>
      fst (replicate_loop (net_os cs) ''PUT'' k v ?rs 0 w) = ?q"
    using assms(3) by (simp add: replicate_put_def Let_def split: prod.splits)
  also have "\<dots> \<longleftrightarrow> 1 \<le> ?f \<and> all_stored (net_os cs) ''PUT'' k v ?rs w"
  proof (cases "1 \<le> ?f")
    case True
    then have "?q = 0 + int (length ?rs)" by (auto simp: required_replications_def)
    then show ?thesis using replicate_loop_full [of "net_os cs" "''PUT''" k v ?rs 0 w] True by simp
  next
    case False
    then have "?q < 0" by (simp add: required_replications_def)
    then show ?thesis
      using replicate_loop_bounds [of 0 "net_os cs" "''PUT''" k v ?rs w] False by simp
  qed
  also have "?rs = take (nat (?f - 1)) replicas"
    by (cases "?f - 1 \<le> int (length replicas)") (simp_all add: required_replications_def min_def)
  finally show ?thesis using all_stored_up [OF assms(1,2)] by simp
qed

text \<open>
  Synchronous replication acknowledges a put exactly when the replication factor is at least 1 and
  each of the first \<open>replication_factor - 1\<close> entries of the replica list is a node with a non-zero
  port whose server is up. In particular a single dead replica among them makes the put fail, and
  a factor of 0 or less makes every put fail.
\<close>

theorem replicate_put_acknowledged_iff:
  assumes "net_idle w" "call_small (Put_call k v)" "\<not> enable_async_replication (rm_config rm)"
  shows "fst (replicate_put (net_os cs) k v replicas rm w) \<longleftrightarrow>
    1 \<le> replication_factor (rm_config rm) \<and>
    (\<forall>r \<in> set (take (nat (replication_factor (rm_config rm) - 1)) replicas). replica_up w r)"
  by (rule replicate_put_ack [OF assms])

theorem replicate_put_acknowledged_iff_witness:
  "\<not> fst (replicate_put (net_os [2]) ''k'' [9] [Some \<lparr>ni_id = mk_hash160 [], ni_address = ''127.0.0.1'', ni_port = 9999\<rparr>]
       (replication_manager_new replication_config_default) example_net)"
  using replicate_put_acknowledged_iff [of example_net "''k''" "[9]" "replication_manager_new replication_config_default" "[2]"
      "[Some \<lparr>ni_id = mk_hash160 [], ni_address = ''127.0.0.1'', ni_port = 9999\<rparr>]"]
  by (simp add: net_idle_def example_net_def server_new_def store_values_small_def replication_manager_new_def
      replication_config_default_def replica_up_def node_endpoint_def)

text \<open>
  The queue of asynchronous replication always drains: with the processing thread running, the
  loop ends with an empty queue whatever the replicas answer, because a task is queued again at
  most \<open>max_retries\<close> times.
\<close>

theorem replication_queue_drains:
  assumes "rm_running rm"
  shows "pending_tasks (fst (process_replication_queue os rm w)) = []"
  by (rule process_replication_queue_empties [OF assms])

theorem replication_queue_drains_witness:
  "pending_tasks (fst (process_replication_queue (net_os []) (start_async_processing
      (enqueue_replication_task (replication_task PUT_TASK ''k'' [1] [None]) (replication_manager_new replication_config_default)))
      example_net)) = []"
  by (rule replication_queue_drains) (simp add: start_async_processing_def)

end
