(* ===== verification/Chord.thy ===== *)
theory Chord
  imports Failure_Detector Replication
begin

text \<open>
  The Chord node of \<open>src/include/chord.h\<close> and \<open>src/src/chord.cpp\<close>. An operation is a program on the
  node and the world, run by one thread. \<open>routing_mutex\<close> is not recursive: the field
  \<open>routing_locked\<close> says whether the running thread holds it, and locking it again is the fault
  \<open>Deadlock\<close>, after which the thread stays where it is with the mutex held. The vectors keep the sizes
  8 and 160 (invariant \<open>chord_wf\<close>), so the indices of the code are in range. Logging has no counterpart.
\<close>

section \<open>State\<close>

abbreviation FINGER_TABLE_SIZE :: nat where "FINGER_TABLE_SIZE \<equiv> 160"

abbreviation SUCCESSOR_LIST_SIZE :: nat where "SUCCESSOR_LIST_SIZE \<equiv> 8"

record ChordNode =
  self_info :: NodeInfo
  predecessor :: node_ptr
  successor_list :: "node_ptr list"
  finger_table :: "node_ptr list"
  routing_locked :: bool
  local_storage :: Storage
  replication_manager :: ReplicationManager
  failure_detector :: FailureDetector
  maintaining :: bool
  next_finger_to_fix :: nat

type_synonym ('w, 'a) cprog = "(ChordNode \<times> 'w, 'a) prog"

definition chord_node_new :: "string \<Rightarrow> u16 \<Rightarrow> ChordNode" where
  "chord_node_new address p =
     (let self = from_address address p in
      \<lparr>self_info = self, predecessor = None,
       successor_list = replicate SUCCESSOR_LIST_SIZE (Some self),
       finger_table = replicate FINGER_TABLE_SIZE (Some self),
       routing_locked = False, local_storage = storage_empty,
       replication_manager = replication_manager_new replication_config_default,
       failure_detector = failure_detector_new failure_config_default,
       maintaining = False, next_finger_to_fix = 0\<rparr>)"

text \<open>\<open>std::lock_guard<std::mutex> lock(routing_mutex)\<close> around a block; an exception releases the mutex.\<close>

definition with_lock :: "('w, 'a) cprog \<Rightarrow> ('w, 'a) cprog" where
  "with_lock m = (\<lambda>(n, w).
     if routing_locked n then (Inl Deadlock, (n, w))
     else case m (n\<lparr>routing_locked := True\<rparr>, w) of (r, (n', w')) \<Rightarrow>
       if r = Inl Deadlock then (r, (n', w')) else (r, (n'\<lparr>routing_locked := False\<rparr>, w')))"

definition node_get :: "(ChordNode \<Rightarrow> 'a) \<Rightarrow> ('w, 'a) cprog" where
  "node_get f = getP (\<lambda>(n, w). f n)"

definition node_mod :: "(ChordNode \<Rightarrow> ChordNode) \<Rightarrow> ('w, unit) cprog" where
  "node_mod f = modP (\<lambda>(n, w). (f n, w))"

section \<open>Life cycle\<close>

definition reset_single :: "ChordNode \<Rightarrow> ChordNode" where
  "reset_single n =
     n\<lparr>predecessor := None,
       successor_list := map (\<lambda>_. Some (self_info n)) (successor_list n),
       finger_table := map (\<lambda>_. Some (self_info n)) (finger_table n)\<rparr>"

definition chord_create :: "('w, unit) cprog" where
  "chord_create = with_lock (node_mod reset_single)"

definition initialize_finger_table :: "ChordNode \<Rightarrow> ChordNode" where
  "initialize_finger_table n = n\<lparr>finger_table := map (\<lambda>_. successor_list n ! 0) (finger_table n)\<rparr>"

definition chord_join :: "node_ptr \<Rightarrow> ('w, unit) cprog" where
  "chord_join existing_node = (\<lambda>(n, w).
     case existing_node of
       None \<Rightarrow> chord_create (n, w)
     | Some e \<Rightarrow>
         if node_eq e (self_info n) then chord_create (n, w)
         else with_lock (node_mod (\<lambda>n. initialize_finger_table
                (n\<lparr>predecessor := None, successor_list := (successor_list n)[0 := Some e]\<rparr>))) (n, w))"

definition start_maintenance :: "('w, unit) cprog" where
  "start_maintenance = node_mod (\<lambda>n. if maintaining n then n else n\<lparr>maintaining := True\<rparr>)"

definition stop_maintenance :: "('w, unit) cprog" where
  "stop_maintenance = node_mod (\<lambda>n.
     if \<not> maintaining n then n
     else n\<lparr>maintaining := False, replication_manager := stop_async_processing (replication_manager n)\<rparr>)"

section \<open>Ownership and routing\<close>

definition responsible :: "ChordNode \<Rightarrow> Hash160 \<Rightarrow> bool" where
  "responsible n key_id =
     (case predecessor n of
        None \<Rightarrow> True
      | Some p \<Rightarrow> in_range key_id (ni_id p) (ni_id (self_info n)) True)"

definition is_responsible_for_key :: "Hash160 \<Rightarrow> ('w, bool) cprog" where
  "is_responsible_for_key key_id = with_lock (node_get (\<lambda>n. responsible n key_id))"

definition get_successor :: "('w, node_ptr) cprog" where
  "get_successor = with_lock (node_get (\<lambda>n. successor_list n ! 0))"

definition get_predecessor :: "('w, node_ptr) cprog" where
  "get_predecessor = with_lock (node_get predecessor)"

definition get_successor_list :: "('w, node_ptr list) cprog" where
  "get_successor_list = with_lock (node_get successor_list)"

text \<open>The loop over the fingers from the highest index down.\<close>

fun scan_fingers :: "NodeInfo \<Rightarrow> Hash160 \<Rightarrow> node_ptr list \<Rightarrow> node_ptr" where
  "scan_fingers self hid [] = Some self"
| "scan_fingers self hid (None # fs) = scan_fingers self hid fs"
| "scan_fingers self hid (Some f # fs) =
     (if node_ne f self \<and> in_range (ni_id f) (ni_id self) hid False then Some f
      else scan_fingers self hid fs)"

definition closest_preceding_node :: "Hash160 \<Rightarrow> ('w, node_ptr) cprog" where
  "closest_preceding_node hid =
     with_lock (node_get (\<lambda>n. scan_fingers (self_info n) hid (rev (finger_table n))))"

text \<open>
  \<open>contact_node\<close>: a connection attempt that feeds the failure detector; every operation of the
  protocol is a placeholder that returns the node itself. Nothing in it throws.
\<close>

definition contact_node :: "'w os \<Rightarrow> node_ptr \<Rightarrow> string \<Rightarrow> Hash160 \<Rightarrow> ('w, node_ptr) cprog" where
  "contact_node os node operation param = (\<lambda>(n, w).
     case node of
       None \<Rightarrow> (Inr (Some (self_info n)), (n, w))
     | Some m \<Rightarrow>
         if node_eq m (self_info n) then (Inr (Some (self_info n)), (n, w))
         else case client_connect os (client_new (ni_address m) (ni_port m)) w of (ok, c, w1) \<Rightarrow>
         if \<not> ok
         then (Inr None, (n\<lparr>failure_detector := mark_node_failed node (failure_detector n)\<rparr>,
                          snd (client_disconnect os c w1)))
         else case mark_node_responsive os node (failure_detector n) w1 of (fd, w2) \<Rightarrow>
         case (if operation = ''notify''
               then (case client_ping os c w2 of (_, c', w') \<Rightarrow> (c', w')) else (c, w2)) of (c3, w3) \<Rightarrow>
         (Inr node, (n\<lparr>failure_detector := fd\<rparr>, snd (client_disconnect os c3 w3))))"

definition find_successor :: "'w os \<Rightarrow> Hash160 \<Rightarrow> ('w, node_ptr) cprog" where
  "find_successor os hid =
     bindP (is_responsible_for_key hid) (\<lambda>own.
       if own then node_get (\<lambda>n. Some (self_info n))
       else with_lock (\<lambda>(n, w).
         let successor = successor_list n ! 0 in
         if (case successor of None \<Rightarrow> False
             | Some s \<Rightarrow> in_range hid (ni_id (self_info n)) (ni_id s) True)
         then (Inr successor, (n, w))
         else bindP (closest_preceding_node hid) (\<lambda>closest.
           case closest of
             None \<Rightarrow> ret successor
           | Some c \<Rightarrow> if node_ne c (self_info n) then contact_node os closest ''find_successor'' hid
                       else ret successor) (n, w)))"

text \<open>The loop of \<open>find_predecessor\<close>, which runs with the mutex held; \<open>fuel\<close> bounds the iterations.\<close>

fun find_predecessor_loop ::
  "'w os \<Rightarrow> Hash160 \<Rightarrow> nat \<Rightarrow> NodeInfo \<Rightarrow> node_ptr \<Rightarrow> ('w, node_ptr) cprog" where
  "find_predecessor_loop os hid 0 current successor = raise Out_of_fuel"
| "find_predecessor_loop os hid (Suc fuel) current successor =
     (case successor of
        None \<Rightarrow> ret (Some current)
      | Some s \<Rightarrow>
          if in_range hid (ni_id current) (ni_id s) True then ret (Some current)
          else bindP (node_get self_info) (\<lambda>self.
            bindP (if node_eq current self then closest_preceding_node hid
                   else contact_node os (Some current) ''closest_preceding_node'' hid) (\<lambda>next.
              case next of
                None \<Rightarrow> ret None
              | Some c \<Rightarrow>
                  if node_eq c self then ret (Some c)
                  else bindP (contact_node os (Some c) ''get_successor'' (mk_hash160 []))
                         (find_predecessor_loop os hid fuel c))))"

definition find_predecessor :: "'w os \<Rightarrow> nat \<Rightarrow> Hash160 \<Rightarrow> ('w, node_ptr) cprog" where
  "find_predecessor os fuel hid =
     with_lock (\<lambda>(n, w). find_predecessor_loop os hid fuel (self_info n) (successor_list n ! 0) (n, w))"

definition get_finger_start :: "ChordNode \<Rightarrow> int \<Rightarrow> Hash160" where
  "get_finger_start n index =
     (if index < 0 \<or> index \<ge> int FINGER_TABLE_SIZE then ni_id (self_info n)
      else add_power_of_two (ni_id (self_info n)) index)"

section \<open>Maintenance\<close>

definition stabilize :: "'w os \<Rightarrow> ('w, unit) cprog" where
  "stabilize os = (\<lambda>(n0, w0).
     if \<not> maintaining n0 then (Inr (), (n0, w0))
     else bindP (with_lock (node_get (\<lambda>n. successor_list n ! 0))) (\<lambda>successor.
       case successor of
         None \<Rightarrow> ret ()
       | Some s \<Rightarrow>
           if node_eq s (self_info n0) then ret ()
           else bindP (contact_node os successor ''get_predecessor'' (mk_hash160 [])) (\<lambda>x.
             bindP (with_lock (\<lambda>(n, w).
               case x of
                 None \<Rightarrow> (Inr successor, (n, w))
               | Some y \<Rightarrow>
                   if node_ne y (self_info n) \<and> in_range (ni_id y) (ni_id (self_info n)) (ni_id s) False
                   then (Inr x, (n\<lparr>successor_list := (successor_list n)[0 := x]\<rparr>, w))
                   else (Inr successor, (n, w)))) (\<lambda>successor'.
               case successor' of
                 None \<Rightarrow> ret ()
               | Some s' \<Rightarrow>
                   if node_ne s' (self_info n0)
                   then bindP (contact_node os successor' ''notify'' (ni_id (self_info n0))) (\<lambda>_. ret ())
                   else ret ()))) (n0, w0))"

text \<open>One key-value pair to another node over a socket of its own: one \<open>send\<close>, one \<open>recv\<close> of at most 1024 bytes.\<close>

definition send_key_transfer :: "'w os \<Rightarrow> node_ptr \<Rightarrow> string \<Rightarrow> bytes \<Rightarrow> ('w, bool) cprog" where
  "send_key_transfer os target key value = (\<lambda>(n, w).
     case target of
       None \<Rightarrow> (Inr False, (n, w))
     | Some t \<Rightarrow>
         if node_eq t (self_info n) then (Inr False, (n, w))
         else case os_socket os w of (fd, w1) \<Rightarrow>
         if fd = -1 then (Inr False, (n, w1))
         else let w2 = os_set_timeouts os fd 5 w1 in
         if os_inet_pton os (ni_address t) \<le> 0 then (Inr False, (n, os_close os fd w2))
         else case os_connect os fd (ni_address t) (ni_port t) w2 of ((r, _), w3) \<Rightarrow>
         if r = -1 then (Inr False, (n, os_close os fd w3))
         else case os_send os fd (encodeRequest
                \<lparr>req_opcode = TRANSFER_KEY, req_key = bytes_of_string key, req_value = value\<rparr>) w3 of (sent, w4) \<Rightarrow>
         if sent = -1 then (Inr False, (n, os_close os fd w4))
         else case os_recv os fd 1024 w4 of (buffer, w5) \<Rightarrow>
         let w6 = os_close os fd w5 in
         if buffer \<noteq> []
         then case decodeResponse (take 1024 buffer) Response0 of (decoded, response) \<Rightarrow>
           (Inr (decoded \<and> resp_status response = SUCCESS), (n, w6))
         else (Inr False, (n, w6)))"

fun transfer_loop :: "'w os \<Rightarrow> node_ptr \<Rightarrow> (string \<times> bytes) list \<Rightarrow> ('w, unit) cprog" where
  "transfer_loop os target [] = ret ()"
| "transfer_loop os target ((key, value) # kvs) =
     bindP (send_key_transfer os target key value) (\<lambda>ok.
       bindP (node_mod (\<lambda>n. if ok then n\<lparr>local_storage := snd (storage_remove (local_storage n) key)\<rparr> else n))
         (\<lambda>_. transfer_loop os target kvs))"

text \<open>
  The predicate reads \<open>predecessor\<close> without the mutex; within one thread it is the current value.
\<close>

definition transfer_predicate :: "ChordNode \<Rightarrow> NodeInfo \<Rightarrow> string \<Rightarrow> bool" where
  "transfer_predicate n target key =
     (case predecessor n of
        None \<Rightarrow> False
      | Some p \<Rightarrow> in_range (SHA1_hash key) (ni_id p) (ni_id target) True)"

definition transfer_keys_to_node :: "'w os \<Rightarrow> node_ptr \<Rightarrow> ('w, unit) cprog" where
  "transfer_keys_to_node os target_node = (\<lambda>(n, w).
     case target_node of
       None \<Rightarrow> (Inr (), (n, w))
     | Some t \<Rightarrow>
         if node_eq t (self_info n) then (Inr (), (n, w))
         else transfer_loop os target_node
                (storage_get_keys_in_range (local_storage n) (transfer_predicate n t)) (n, w))"

definition receive_transferred_key :: "string \<Rightarrow> bytes \<Rightarrow> ('w, unit) cprog" where
  "receive_transferred_key key value =
     node_mod (\<lambda>n. n\<lparr>local_storage := storage_put (local_storage n) key value\<rparr>)"

text \<open>
  \<open>old_predecessor != node\<close> compares pointers. The two differ whenever the predecessor was changed:
  a node with the old predecessor's identifier is not strictly between it and this node. So a
  comparison of the values decides the same.
\<close>

definition notify :: "'w os \<Rightarrow> node_ptr \<Rightarrow> ('w, unit) cprog" where
  "notify os node = (\<lambda>(n0, w0).
     case node of
       None \<Rightarrow> (Inr (), (n0, w0))
     | Some m \<Rightarrow>
         if node_eq m (self_info n0) then (Inr (), (n0, w0))
         else bindP (with_lock (\<lambda>(n, w).
                if (case predecessor n of None \<Rightarrow> True
                    | Some p \<Rightarrow> in_range (ni_id m) (ni_id p) (ni_id (self_info n)) False)
                then (Inr (predecessor n, True), (n\<lparr>predecessor := node\<rparr>, w))
                else (Inr (None, False), (n, w)))) (\<lambda>(old_predecessor, predecessor_changed).
           if predecessor_changed \<and> old_predecessor \<noteq> node then transfer_keys_to_node os node
           else ret ()) (n0, w0))"

definition fix_fingers :: "'w os \<Rightarrow> ('w, unit) cprog" where
  "fix_fingers os = (\<lambda>(n0, w0).
     if \<not> maintaining n0 then (Inr (), (n0, w0))
     else bindP (with_lock (\<lambda>(n, w).
            let i = (next_finger_to_fix n + 1) mod FINGER_TABLE_SIZE in
            (Inr (i, get_finger_start n (int i)), (n\<lparr>next_finger_to_fix := i\<rparr>, w)))) (\<lambda>(i, start).
       bindP (find_successor os start) (\<lambda>successor.
         case successor of
           None \<Rightarrow> ret ()
         | Some s \<Rightarrow> with_lock (node_mod (\<lambda>n. n\<lparr>finger_table := (finger_table n)[i := successor]\<rparr>))))
       (n0, w0))"

definition chord_leave :: "'w os \<Rightarrow> ('w, unit) cprog" where
  "chord_leave os =
     bindP stop_maintenance (\<lambda>_.
     bindP (with_lock (node_get (\<lambda>n. case successor_list n ! 0 of
              None \<Rightarrow> None | Some s \<Rightarrow> if node_ne s (self_info n) then Some s else None))) (\<lambda>successor.
     bindP (case successor of None \<Rightarrow> ret () | Some s \<Rightarrow> transfer_keys_to_node os successor) (\<lambda>_.
     with_lock (node_mod reset_single))))"

section \<open>Data operations\<close>

text \<open>The loop of \<open>get_replica_nodes\<close> over the first entries of the successor list.\<close>

definition replica_nodes :: "ChordNode \<Rightarrow> node_ptr list" where
  "replica_nodes n =
     filter (\<lambda>s. case s of None \<Rightarrow> False | Some m \<Rightarrow> node_ne m (self_info n))
       (take (nat (min (get_replication_factor (replication_manager n) - 1) (int SUCCESSOR_LIST_SIZE)))
          (successor_list n))"

definition get_replica_nodes :: "Hash160 \<Rightarrow> ('w, node_ptr list) cprog" where
  "get_replica_nodes key_id = with_lock (node_get replica_nodes)"

definition get_successor_nodes :: "int \<Rightarrow> ('w, node_ptr list) cprog" where
  "get_successor_nodes count = with_lock (node_get (\<lambda>n.
     filter (\<lambda>s. s \<noteq> None) (take (nat (min count (int SUCCESSOR_LIST_SIZE))) (successor_list n))))"

text \<open>
  The forwarding branch of the data operations: a client of the responsible node, \<open>false\<close> when it
  cannot connect or throws.
\<close>

definition forward :: "'w os \<Rightarrow> NodeInfo \<Rightarrow> (Client \<Rightarrow> 'w \<Rightarrow> (fault + 'a) \<times> Client \<times> 'w) \<Rightarrow> 'a \<Rightarrow> 'w \<Rightarrow> 'a \<times> 'w" where
  "forward os m call failed w =
     (case client_connect os (client_new (ni_address m) (ni_port m)) w of (ok, c, w1) \<Rightarrow>
      if \<not> ok then (failed, snd (client_disconnect os c w1))
      else case call c w1 of (r, c2, w2) \<Rightarrow>
        ((case r of Inl f \<Rightarrow> failed | Inr x \<Rightarrow> x), snd (client_disconnect os c2 w2)))"

definition forward_to_responsible ::
  "'w os \<Rightarrow> Hash160 \<Rightarrow> (Client \<Rightarrow> 'w \<Rightarrow> (fault + 'a) \<times> Client \<times> 'w) \<Rightarrow> 'a \<Rightarrow> ('w, 'a) cprog" where
  "forward_to_responsible os key_id call failed =
     bindP (find_successor os key_id) (\<lambda>node. (\<lambda>(n, w).
       case node of
         None \<Rightarrow> (Inr failed, (n, w))
       | Some m \<Rightarrow>
           if node_ne m (self_info n)
           then (case forward os m call failed w of (x, w1) \<Rightarrow> (Inr x, (n, w1)))
           else (Inr failed, (n, w))))"

definition node_replicate_put :: "'w os \<Rightarrow> string \<Rightarrow> bytes \<Rightarrow> node_ptr list \<Rightarrow> ('w, bool) cprog" where
  "node_replicate_put os key value replicas = (\<lambda>(n, w).
     case replicate_put os key value replicas (replication_manager n) w of (ok, rm, w1) \<Rightarrow>
     (Inr ok, (n\<lparr>replication_manager := rm\<rparr>, w1)))"

definition node_replicate_delete :: "'w os \<Rightarrow> string \<Rightarrow> node_ptr list \<Rightarrow> ('w, bool) cprog" where
  "node_replicate_delete os key replicas = (\<lambda>(n, w).
     case replicate_delete os key replicas (replication_manager n) w of (ok, rm, w1) \<Rightarrow>
     (Inr ok, (n\<lparr>replication_manager := rm\<rparr>, w1)))"

definition node_get_from_replicas :: "'w os \<Rightarrow> string \<Rightarrow> bytes \<Rightarrow> node_ptr list \<Rightarrow> ('w, bool \<times> bytes) cprog" where
  "node_get_from_replicas os key value replicas = (\<lambda>(n, w).
     case get_from_replicas os key value replicas w of (r, w1) \<Rightarrow> (Inr r, (n, w1)))"

text \<open>
  \<open>store_key\<close> and \<open>remove_key\<close> on the responsible node make two accesses to the local store each. The
  part up to the first access and the part from there to the return are separate definitions, so
  that the steps of two threads can be put between them.
\<close>

definition store_write :: "string \<Rightarrow> bytes \<Rightarrow> ('w, unit) cprog" where
  "store_write key value = node_mod (\<lambda>n. n\<lparr>local_storage := storage_put (local_storage n) key value\<rparr>)"

definition store_replicate :: "'w os \<Rightarrow> string \<Rightarrow> bytes \<Rightarrow> ('w, bool) cprog" where
  "store_replicate os key value =
     bindP (get_replica_nodes (SHA1_hash key)) (\<lambda>replicas.
       if replicas \<noteq> []
       then bindP (node_replicate_put os key value replicas) (\<lambda>replication_success.
         if \<not> replication_success
         then bindP (node_mod (\<lambda>n. n\<lparr>local_storage := snd (storage_remove (local_storage n) key)\<rparr>))
                (\<lambda>_. ret False)
         else ret True)
       else ret True)"

definition store_key :: "'w os \<Rightarrow> string \<Rightarrow> bytes \<Rightarrow> ('w, bool) cprog" where
  "store_key os key value =
     (let key_id = SHA1_hash key in
      bindP (is_responsible_for_key key_id) (\<lambda>own.
        if own then bindP (store_write key value) (\<lambda>_. store_replicate os key value)
        else forward_to_responsible os key_id (\<lambda>c. client_put os c key value) False))"

definition retrieve_key :: "'w os \<Rightarrow> string \<Rightarrow> bytes \<Rightarrow> ('w, bool \<times> bytes) cprog" where
  "retrieve_key os key value =
     (let key_id = SHA1_hash key in
      bindP (is_responsible_for_key key_id) (\<lambda>own.
        if own
        then bindP (node_get (\<lambda>n. storage_get (local_storage n) key value)) (\<lambda>(found, v).
          if found then ret (True, v)
          else bindP (get_replica_nodes key_id) (\<lambda>replicas.
            if replicas \<noteq> [] then node_get_from_replicas os key v replicas else ret (False, v)))
        else forward_to_responsible os key_id (\<lambda>c. client_get os c key value) (False, value)))"

definition remove_lookup :: "'w os \<Rightarrow> string \<Rightarrow> ('w, bool) cprog" where
  "remove_lookup os key =
     bindP (node_get (\<lambda>n. storage_get (local_storage n) key [])) (\<lambda>(found, dummy).
       if found then ret True
       else bindP (get_replica_nodes (SHA1_hash key)) (\<lambda>replicas.
         if replicas \<noteq> []
         then bindP (node_get_from_replicas os key dummy replicas) (\<lambda>(ok, _). ret ok)
         else ret False))"

definition remove_erase :: "'w os \<Rightarrow> string \<Rightarrow> ('w, bool) cprog" where
  "remove_erase os key =
     bindP (node_mod (\<lambda>n. n\<lparr>local_storage := snd (storage_remove (local_storage n) key)\<rparr>)) (\<lambda>_.
     bindP (get_replica_nodes (SHA1_hash key)) (\<lambda>replicas.
       if replicas \<noteq> []
       then bindP (node_replicate_delete os key replicas) (\<lambda>_. ret True)
       else ret True))"

definition remove_key :: "'w os \<Rightarrow> string \<Rightarrow> ('w, bool) cprog" where
  "remove_key os key =
     (let key_id = SHA1_hash key in
      bindP (is_responsible_for_key key_id) (\<lambda>own.
        if own
        then bindP (remove_lookup os key) (\<lambda>key_exists.
               if \<not> key_exists then ret False else remove_erase os key)
        else forward_to_responsible os key_id (\<lambda>c. client_remove os c key) False))"

section \<open>Failures\<close>

text \<open>
  The loops of \<open>verify_and_repair_replicas\<close>: what they change is the world (pings) and, through
  \<open>find_successor\<close>, the failure detector. The re-replication they announce is not in the code.
\<close>

definition ping_node :: "'w os \<Rightarrow> NodeInfo \<Rightarrow> ('w, bool) cprog" where
  "ping_node os m = (\<lambda>(n, w). case rm_ping_node os m w of (b, w1) \<Rightarrow> (Inr b, (n, w1)))"

fun count_alive :: "'w os \<Rightarrow> node_ptr list \<Rightarrow> int \<Rightarrow> ('w, int) cprog" where
  "count_alive os [] alive = ret alive"
| "count_alive os (None # rs) alive = count_alive os rs alive"
| "count_alive os (Some m # rs) alive =
     bindP (node_get self_info) (\<lambda>self.
       if node_ne m self
       then bindP (ping_node os m) (\<lambda>b. count_alive os rs (if b then alive + 1 else alive))
       else count_alive os rs alive)"

definition verify_key :: "'w os \<Rightarrow> string \<Rightarrow> ('w, unit) cprog" where
  "verify_key os key =
     (let key_id = SHA1_hash key in
      bindP (find_successor os key_id) (\<lambda>responsible_node.
      bindP (node_get self_info) (\<lambda>self.
        case responsible_node of
          None \<Rightarrow> ret ()
        | Some m \<Rightarrow>
            if node_ne m self
            then bindP (ping_node os m) (\<lambda>alive.
              if alive then ret ()
              else bindP get_predecessor (\<lambda>our_predecessor.
                case our_predecessor of
                  None \<Rightarrow> ret ()
                | Some p \<Rightarrow>
                    if in_range key_id (ni_id p) (ni_id self) True
                    then bindP (get_replica_nodes key_id) (\<lambda>_. ret ())
                    else ret ()))
            else bindP (get_replica_nodes key_id) (\<lambda>replicas.
                 bindP (count_alive os replicas 0) (\<lambda>_. ret ())))))"

fun for_each :: "('a \<Rightarrow> ('s, unit) prog) \<Rightarrow> 'a list \<Rightarrow> ('s, unit) prog" where
  "for_each f [] = ret ()"
| "for_each f (x # xs) = bindP (f x) (\<lambda>_. for_each f xs)"

definition verify_and_repair_replicas :: "'w os \<Rightarrow> ('w, unit) cprog" where
  "verify_and_repair_replicas os = (\<lambda>(n, w).
     for_each (\<lambda>(key, value). verify_key os key) (storage_get_all_data (local_storage n)) (n, w))"

definition check_primary :: "string \<Rightarrow> ('w, unit) cprog" where
  "check_primary key =
     (let key_id = SHA1_hash key in
      bindP (is_responsible_for_key key_id) (\<lambda>own.
        if own then bindP (get_replica_nodes key_id) (\<lambda>_. ret ()) else ret ()))"

definition trigger_re_replication :: "'w os \<Rightarrow> ('w, unit) cprog" where
  "trigger_re_replication os = (\<lambda>(n, w).
     bindP (for_each check_primary (storage_get_all_keys (local_storage n)))
       (\<lambda>_. verify_and_repair_replicas os) (n, w))"

text \<open>The index of the first entry that is the failed node, and the shift of the rest of the list.\<close>

fun points_to :: "NodeInfo \<Rightarrow> node_ptr \<Rightarrow> bool" where
  "points_to m None = False"
| "points_to m (Some s) = node_eq s m"

fun first_index :: "('a \<Rightarrow> bool) \<Rightarrow> 'a list \<Rightarrow> nat option" where
  "first_index P [] = None"
| "first_index P (x # xs) = (if P x then Some 0 else map_option Suc (first_index P xs))"

definition shift_from :: "nat \<Rightarrow> 'a list \<Rightarrow> 'a list" where
  "shift_from i xs = take i xs @ drop (Suc i) xs @ [last xs]"

definition handle_node_failure :: "'w os \<Rightarrow> NodeInfo \<Rightarrow> ('w, unit) cprog" where
  "handle_node_failure os failed_node = with_lock (
     bindP (\<lambda>(n, w).
       case first_index (points_to failed_node) (successor_list n) of
         None \<Rightarrow> (Inr (), (n, w))
       | Some i \<Rightarrow>
           bindP (node_mod (\<lambda>n. n\<lparr>successor_list := shift_from i (successor_list n)\<rparr>)) (\<lambda>_.
           bindP (node_get (\<lambda>n. ni_id (self_info n))) (\<lambda>self_id.
           bindP (find_successor os self_id) (\<lambda>s.
             node_mod (\<lambda>n. n\<lparr>successor_list :=
               (successor_list n)[length (successor_list n) - 1 := s]\<rparr>)))) (n, w)) (\<lambda>_.
     bindP (node_mod (\<lambda>n. if points_to failed_node (predecessor n) then n\<lparr>predecessor := None\<rparr> else n)) (\<lambda>_.
     bindP (node_mod (\<lambda>n. n\<lparr>finger_table :=
              map (\<lambda>f. if points_to failed_node f then successor_list n ! 0 else f) (finger_table n)\<rparr>)) (\<lambda>_.
     trigger_re_replication os))))"

text \<open>One round of \<open>failure_detection_loop\<close>; \<open>running\<close> does not change during a round of the model.\<close>

definition nodes_to_check :: "ChordNode \<Rightarrow> node_ptr list" where
  "nodes_to_check n =
     filter (\<lambda>s. case s of None \<Rightarrow> False | Some m \<Rightarrow> node_ne m (self_info n)) (successor_list n) @
     (case predecessor n of
        None \<Rightarrow> [] | Some p \<Rightarrow> if node_ne p (self_info n) then [Some p] else [])"

fun ping_all :: "'w os \<Rightarrow> node_ptr list \<Rightarrow> FailureDetector \<Rightarrow> 'w \<Rightarrow> NodeInfo list \<times> FailureDetector \<times> 'w" where
  "ping_all os [] fd w = ([], fd, w)"
| "ping_all os (m # ms) fd w =
     (case fd_ping_node os m fd w of (fd1, w1) \<Rightarrow>
      case ping_all os ms fd1 w1 of (failed, fd2, w2) \<Rightarrow>
      ((case m of Some x \<Rightarrow> if is_node_failed fd1 m then [x] else [] | None \<Rightarrow> []) @ failed, fd2, w2))"

definition failure_detection_round :: "'w os \<Rightarrow> ('w, unit) cprog" where
  "failure_detection_round os = (\<lambda>(n0, w0).
     if \<not> maintaining n0 then (Inr (), (n0, w0))
     else bindP (with_lock (node_get nodes_to_check)) (\<lambda>to_check.
          bindP (\<lambda>(n, w). case ping_all os to_check (failure_detector n) w of (failed, fd, w1) \<Rightarrow>
                   (Inr failed, (n\<lparr>failure_detector := fd\<rparr>, w1))) (\<lambda>failed_nodes.
          bindP (for_each (handle_node_failure os) failed_nodes) (\<lambda>_.
          (\<lambda>(n, w). case cleanup_old_entries os minutes30 (failure_detector n) w of (fd, w1) \<Rightarrow>
             (Inr (), (n\<lparr>failure_detector := fd\<rparr>, w1)))))) (n0, w0))"

section \<open>Calls from the network layer\<close>

definition rpc_find_successor :: "'w os \<Rightarrow> Hash160 \<Rightarrow> ('w, node_ptr) cprog" where
  "rpc_find_successor os hid = find_successor os hid"

definition rpc_get_predecessor :: "('w, node_ptr) cprog" where
  "rpc_get_predecessor = get_predecessor"

definition rpc_notify :: "'w os \<Rightarrow> node_ptr \<Rightarrow> ('w, unit) cprog" where
  "rpc_notify os node = notify os node"

definition rpc_ping :: "('w, bool) cprog" where
  "rpc_ping = ret True"

end
