(* ===== verification/Chord_Routing.thy ===== *)
theory Chord_Routing
  imports Chord
begin

text \<open>
  Ownership and routing of the Chord node: what each operation returns and when it blocks for ever on
  the mutex it holds, the partition of the identifier circle by correct predecessors, and what
  maintenance does to the routing state.
\<close>

section \<open>Programs under the mutex\<close>

named_theorems chord_simps \<open>operations on a node whose mutex is free\<close>

lemma unlock_id [simp]: "\<not> routing_locked n \<Longrightarrow> n\<lparr>routing_locked := False\<rparr> = n"
  by (cases n) simp

lemma with_lock_held [simp]: "routing_locked n \<Longrightarrow> with_lock m (n, w) = (Inl Deadlock, (n, w))"
  by (simp add: with_lock_def)

lemma with_lock_get [chord_simps]:
  "\<not> routing_locked n \<Longrightarrow> with_lock (node_get f) (n, w) = (Inr (f (n\<lparr>routing_locked := True\<rparr>)), (n, w))"
  by (simp add: with_lock_def node_get_def)

lemma with_lock_mod [chord_simps]:
  "\<not> routing_locked n \<Longrightarrow>
     with_lock (node_mod f) (n, w) = (Inr (), ((f (n\<lparr>routing_locked := True\<rparr>))\<lparr>routing_locked := False\<rparr>, w))"
  by (simp add: with_lock_def node_mod_def)

lemma node_get_apply [simp]: "node_get f (n, w) = (Inr (f n), (n, w))"
  by (simp add: node_get_def)

lemma node_mod_apply [simp]: "node_mod f (n, w) = (Inr (), (f n, w))"
  by (simp add: node_mod_def)

lemma responsible_locked [simp]: "responsible (n\<lparr>routing_locked := b\<rparr>) h = responsible n h"
  by (simp add: responsible_def cong: option.case_cong)

lemma replica_nodes_locked [simp]: "replica_nodes (n\<lparr>routing_locked := b\<rparr>) = replica_nodes n"
  by (simp add: replica_nodes_def cong: option.case_cong)

lemma is_responsible_free [chord_simps]:
  "\<not> routing_locked n \<Longrightarrow> is_responsible_for_key h (n, w) = (Inr (responsible n h), (n, w))"
  by (simp add: is_responsible_for_key_def chord_simps)

lemma is_responsible_held [simp]:
  "routing_locked n \<Longrightarrow> is_responsible_for_key h (n, w) = (Inl Deadlock, (n, w))"
  by (simp add: is_responsible_for_key_def)

lemma get_replica_nodes_free [chord_simps]:
  "\<not> routing_locked n \<Longrightarrow> get_replica_nodes h (n, w) = (Inr (replica_nodes n), (n, w))"
  by (simp add: get_replica_nodes_def chord_simps)

lemma find_successor_held [simp]:
  "routing_locked n \<Longrightarrow> find_successor os h (n, w) = (Inl Deadlock, (n, w))"
  by (simp add: find_successor_def bindP_def)

section \<open>Well-formed nodes\<close>

definition chord_wf :: "ChordNode \<Rightarrow> bool" where
  "chord_wf n \<longleftrightarrow> \<not> routing_locked n \<and> length (successor_list n) = SUCCESSOR_LIST_SIZE \<and>
     length (finger_table n) = FINGER_TABLE_SIZE \<and> next_finger_to_fix n < FINGER_TABLE_SIZE \<and>
     storage_wf (local_storage n)"

lemma chord_wf_new: "chord_wf (chord_node_new a p)"
  by (simp add: chord_wf_def chord_node_new_def Let_def)

section \<open>What \<open>find_successor\<close> returns\<close>

text \<open>The successor covers the identifier: \<open>hid\<close> lies in \<open>(self, successor]\<close>.\<close>

definition successor_covers :: "ChordNode \<Rightarrow> Hash160 \<Rightarrow> bool" where
  "successor_covers n hid =
     (case successor_list n ! 0 of
        None \<Rightarrow> False | Some s \<Rightarrow> in_range hid (ni_id (self_info n)) (ni_id s) True)"

lemma find_successor_free:
  assumes "\<not> routing_locked n"
  shows "find_successor os hid (n, w) =
    (if responsible n hid then (Inr (Some (self_info n)), (n, w))
     else if successor_covers n hid then (Inr (successor_list n ! 0), (n, w))
     else (Inl Deadlock, (n\<lparr>routing_locked := True\<rparr>, w)))"
proof (cases "responsible n hid")
  case True
  then show ?thesis using assms by (simp add: find_successor_def bindP_def chord_simps)
next
  case False
  then show ?thesis
    using assms
    by (simp add: find_successor_def bindP_def chord_simps with_lock_def [of "\<lambda>(n, w). _ n w"]
        successor_covers_def closest_preceding_node_def Let_def split: option.split)
qed

lemma find_predecessor_free:
  assumes "\<not> routing_locked n"
  shows "find_predecessor os (Suc fuel) hid (n, w) =
    (if successor_list n ! 0 = None \<or> successor_covers n hid then (Inr (Some (self_info n)), (n, w))
     else (Inl Deadlock, (n\<lparr>routing_locked := True\<rparr>, w)))"
  using assms
  by (auto simp: find_predecessor_def with_lock_def [of "\<lambda>(n, w). _ n w"] successor_covers_def bindP_def
      closest_preceding_node_def split: option.split)

section \<open>Keys and owners on the ring\<close>

text \<open>
  \<open>p\<close> is the predecessor of \<open>x\<close> in a set of identifiers: another member, with no member strictly
  between them.
\<close>

definition ring_pred :: "Hash160 set \<Rightarrow> Hash160 \<Rightarrow> Hash160 \<Rightarrow> bool" where
  "ring_pred S p x \<longleftrightarrow> p \<in> S \<and> p \<noteq> x \<and> (\<forall>y \<in> S. \<not> in_range y p x False)"

lemma ring_owner_exists:
  assumes "finite S" "S \<noteq> {}" "\<forall>x \<in> S. ring_pred S (pred x) x"
  shows "\<exists>x \<in> S. in_range h (pred x) x True"
proof (cases "\<exists>y \<in> S. h \<le> y")
  case True
  let ?A = "{y \<in> S. h \<le> y}"
  have A: "finite ?A" "?A \<noteq> {}" using assms(1) True by auto
  let ?x = "Min ?A"
  have x: "?x \<in> S" "h \<le> ?x" using Min_in [OF A] by auto
  have p: "pred ?x \<in> S" "pred ?x \<noteq> ?x" using assms(3) x(1) by (auto simp: ring_pred_def)
  have "pred ?x < ?x \<Longrightarrow> \<not> h \<le> pred ?x" using Min_le [OF A(1), of "pred ?x"] p(1) by auto
  then have "in_range h (pred ?x) ?x True" using x(2) p(2) by (auto simp: in_range_def)
  then show ?thesis using x(1) by blast
next
  case False
  let ?x = "Min S"
  have x: "?x \<in> S" using Min_in [OF assms(1,2)] .
  have p: "pred ?x \<in> S" "pred ?x \<noteq> ?x" using assms(3) x by (auto simp: ring_pred_def)
  have "?x \<le> pred ?x" using Min_le [OF assms(1) p(1)] .
  then have "in_range h (pred ?x) ?x True" using False p by (auto simp: in_range_def not_le)
  then show ?thesis using x by blast
qed

lemma ring_owner_unique:
  assumes "ring_pred S p x" "ring_pred S q y" "x \<in> S" "y \<in> S"
    and "in_range h p x True" "in_range h q y True"
  shows "x = y"
proof (rule ccontr)
  assume ne: "x \<noteq> y"
  have pq: "p \<noteq> x" "q \<noteq> y" "\<not> in_range y p x False" "\<not> in_range x q y False"
    "\<not> in_range q p x False" "\<not> in_range p q y False"
    using assms(1-4) by (auto simp: ring_pred_def)
  show False
    using ne pq assms(5,6)
    by (cases "p < x"; cases "q < y"; cases "x < y") (auto simp: in_range_def not_less)
qed

lemma find_pred_exists:
  "finite S \<Longrightarrow> x \<in> S \<Longrightarrow> S \<noteq> {x} \<Longrightarrow> \<exists>p. ring_pred S p x"
proof (cases "\<exists>y \<in> S. y < x")
  case True
  assume S: "finite S" "x \<in> S"
  let ?A = "{y \<in> S. y < x}"
  have A: "finite ?A" "?A \<noteq> {}" using S True by auto
  have "Max ?A \<in> S" "Max ?A < x" using Max_in [OF A] by auto
  moreover have "y \<in> S \<Longrightarrow> y < x \<Longrightarrow> y \<le> Max ?A" for y using Max_ge [OF A(1)] by simp
  ultimately have "ring_pred S (Max ?A) x"
    by (auto simp: ring_pred_def in_range_def) (meson leD)
  then show ?thesis by blast
next
  case False
  assume S: "finite S" "x \<in> S" "S \<noteq> {x}"
  have m: "Max S \<in> S" using Max_in [OF S(1)] S(2) by auto
  have le: "y \<in> S \<Longrightarrow> y \<le> Max S" for y using Max_ge [OF S(1)] by simp
  obtain z where "z \<in> S" "z \<noteq> x" using S by blast
  then have "x < Max S" using False le [of z] by (metis linorder_neqE order.strict_trans2)
  then have "ring_pred S (Max S) x"
    using m le False by (auto simp: ring_pred_def in_range_def) (meson leD)
  then show ?thesis by blast
qed

lemma responsible_pred:
  "predecessor n = Some p \<Longrightarrow> responsible n h = in_range h (ni_id p) (ni_id (self_info n)) True"
  by (simp add: responsible_def)

section \<open>Contacting a node\<close>

lemma contact_node_result:
  "\<exists>r fd w'. contact_node os m operation x (n, w) = (Inr r, (n\<lparr>failure_detector := fd\<rparr>, w')) \<and>
     (r = None \<or> r = m \<or> r = Some (self_info n))"
proof -
  have same: "n\<lparr>failure_detector := failure_detector n\<rparr> = n" by (cases n) simp
  show ?thesis
  proof (cases m)
    case None
    then have "contact_node os m operation x (n, w) = (Inr (Some (self_info n)), (n\<lparr>failure_detector := failure_detector n\<rparr>, w))"
      using same by (simp add: contact_node_def)
    then show ?thesis by blast
  next
    case (Some y)
    show ?thesis
    proof (cases "node_eq y (self_info n)")
      case True
      then have "contact_node os m operation x (n, w) = (Inr (Some (self_info n)), (n\<lparr>failure_detector := failure_detector n\<rparr>, w))"
        using same Some by (simp add: contact_node_def)
      then show ?thesis by blast
    next
      case False
      then show ?thesis using Some by (auto simp: contact_node_def split: prod.splits)
    qed
  qed
qed

section \<open>Stabilisation\<close>

lemma stabilize_result:
  assumes "\<not> routing_locked n"
  shows "\<exists>fd w'. stabilize os (n, w) = (Inr (), (n\<lparr>failure_detector := fd\<rparr>, w'))"
proof -
  have same: "n\<lparr>failure_detector := failure_detector n\<rparr> = n" by (cases n) simp
  let ?s = "successor_list n ! 0"
  consider "\<not> maintaining n \<or> ?s = None \<or> (\<exists>s. ?s = Some s \<and> node_eq s (self_info n))"
    | s where "maintaining n" "?s = Some s" "node_ne s (self_info n)"
    by (cases ?s) auto
  then show ?thesis
  proof cases
    case 1
    then have "stabilize os (n, w) = (Inr (), (n\<lparr>failure_detector := failure_detector n\<rparr>, w))"
      using assms same by (auto simp: stabilize_def bindP_def chord_simps split: option.splits)
    then show ?thesis by blast
  next
    case (2 s)
    obtain x fd w1 where x: "contact_node os ?s ''get_predecessor'' (mk_hash160 []) (n, w) =
        (Inr x, (n\<lparr>failure_detector := fd\<rparr>, w1))" "x = None \<or> x = ?s \<or> x = Some (self_info n)"
      using contact_node_result by metis
    let ?n = "n\<lparr>failure_detector := fd\<rparr>"
    obtain r fd2 w2 where c: "contact_node os ?s ''notify'' (ni_id (self_info n)) (?n, w1) =
        (Inr r, (?n\<lparr>failure_detector := fd2\<rparr>, w2))"
      using contact_node_result by metis
    have "stabilize os (n, w) = (Inr (), (n\<lparr>failure_detector := fd2\<rparr>, w2))"
      using assms 2 x c
      by (auto simp: stabilize_def bindP_def chord_simps with_lock_def [of "\<lambda>(n, w). _ n w"] split: option.splits)
    then show ?thesis by blast
  qed
qed

section \<open>Key transfer\<close>

lemma send_key_transfer_result: "\<exists>b w'. send_key_transfer os t k v (n, w) = (Inr b, (n, w'))"
  by (auto simp: send_key_transfer_def Let_def split: option.splits prod.splits)

lemma transfer_loop_result:
  assumes "storage_wf (local_storage n)"
  shows "\<exists>st w'. transfer_loop os t kvs (n, w) = (Inr (), (n\<lparr>local_storage := st\<rparr>, w')) \<and> storage_wf st \<and>
    (\<forall>k. k \<notin> fst ` set kvs \<longrightarrow> storage_map st k = storage_map (local_storage n) k)"
  using assms
proof (induction kvs arbitrary: n w)
  case Nil
  have "n\<lparr>local_storage := local_storage n\<rparr> = n" by (cases n) simp
  then show ?case using Nil by (metis ret_apply transfer_loop.simps(1))
next
  case (Cons kv kvs)
  obtain k v where kv: "kv = (k, v)" by fastforce
  obtain b w1 where b: "send_key_transfer os t k v (n, w) = (Inr b, (n, w1))"
    using send_key_transfer_result [of os t k v n w] by blast
  let ?n = "if b then n\<lparr>local_storage := snd (storage_remove (local_storage n) k)\<rparr> else n"
  have "storage_wf (local_storage ?n)" using Cons.prems by simp
  then obtain st w' where st: "transfer_loop os t kvs (?n, w1) = (Inr (), (?n\<lparr>local_storage := st\<rparr>, w'))"
    "storage_wf st" "\<forall>j. j \<notin> fst ` set kvs \<longrightarrow> storage_map st j = storage_map (local_storage ?n) j"
    using Cons.IH by blast
  have "transfer_loop os t (kv # kvs) (n, w) = (Inr (), (n\<lparr>local_storage := st\<rparr>, w'))"
    using kv b st(1) by (auto simp: bindP_def split: if_splits)
  moreover have "j \<notin> fst ` set (kv # kvs) \<Longrightarrow> storage_map st j = storage_map (local_storage n) j" for j
    using st(3) kv by (auto split: if_splits)
  ultimately show ?case using st(2) by blast
qed

lemma transfer_keys_result:
  assumes "storage_wf (local_storage n)"
  shows "\<exists>st w'. transfer_keys_to_node os (Some t) (n, w) = (Inr (), (n\<lparr>local_storage := st\<rparr>, w')) \<and> storage_wf st \<and>
    (\<forall>k. \<not> transfer_predicate n t k \<longrightarrow> storage_map st k = storage_map (local_storage n) k)"
proof (cases "node_eq t (self_info n)")
  case True
  have "n\<lparr>local_storage := local_storage n\<rparr> = n" by (cases n) simp
  then have "transfer_keys_to_node os (Some t) (n, w) = (Inr (), (n\<lparr>local_storage := local_storage n\<rparr>, w))"
    using True by (simp add: transfer_keys_to_node_def)
  then show ?thesis using assms by blast
next
  case False
  let ?kvs = "storage_get_keys_in_range (local_storage n) (transfer_predicate n t)"
  have "k \<in> fst ` set ?kvs \<Longrightarrow> transfer_predicate n t k" for k
    using map_of_storage_get_keys_in_range [OF assms, of "transfer_predicate n t"]
    by (metis map_of_eq_None_iff)
  then show ?thesis
    using transfer_loop_result [OF assms, of os "Some t" ?kvs w] False
    by (auto simp: transfer_keys_to_node_def) blast
qed

section \<open>Notification\<close>

definition accepts_predecessor :: "ChordNode \<Rightarrow> NodeInfo \<Rightarrow> bool" where
  "accepts_predecessor n m \<longleftrightarrow> node_ne m (self_info n) \<and>
     (case predecessor n of None \<Rightarrow> True | Some p \<Rightarrow> in_range (ni_id m) (ni_id p) (ni_id (self_info n)) False)"

lemma notify_ignored:
  "\<not> routing_locked n \<Longrightarrow> \<not> accepts_predecessor n m \<Longrightarrow> notify os (Some m) (n, w) = (Inr (), (n, w))"
  by (auto simp: notify_def accepts_predecessor_def bindP_def with_lock_def split: option.splits)

lemma notify_accepted:
  assumes "\<not> routing_locked n" "accepts_predecessor n m"
  shows "notify os (Some m) (n, w) = transfer_keys_to_node os (Some m) (n\<lparr>predecessor := Some m\<rparr>, w)"
proof -
  let ?locked = "\<lambda>(n :: ChordNode, w :: 'a).
      if (case predecessor n of None \<Rightarrow> True
          | Some p \<Rightarrow> in_range (ni_id m) (ni_id p) (ni_id (self_info n)) False)
      then (Inr (predecessor n, True), (n\<lparr>predecessor := Some m\<rparr>, w))
      else (Inr (None, False), (n, w)) :: (fault + node_ptr \<times> bool) \<times> ChordNode \<times> 'a"
  have "predecessor n \<noteq> Some m"
    using assms(2) by (auto simp: accepts_predecessor_def)
  moreover have "with_lock ?locked (n, w) = (Inr (predecessor n, True), (n\<lparr>predecessor := Some m\<rparr>, w))"
    using assms by (cases n) (auto simp: with_lock_def accepts_predecessor_def split: option.splits)
  ultimately show ?thesis
    using assms(2) by (simp add: notify_def bindP_def accepts_predecessor_def)
qed

lemma notify_result:
  assumes "\<not> routing_locked n" "storage_wf (local_storage n)" "accepts_predecessor n m"
  shows "\<exists>st w'. notify os (Some m) (n, w) = (Inr (), (n\<lparr>predecessor := Some m, local_storage := st\<rparr>, w')) \<and>
    storage_wf st \<and> (\<forall>k. SHA1_hash k \<noteq> ni_id m \<longrightarrow> storage_map st k = storage_map (local_storage n) k)"
proof -
  let ?n = "n\<lparr>predecessor := Some m\<rparr>"
  have "transfer_predicate ?n m k \<longleftrightarrow> SHA1_hash k = ni_id m" for k
    by (simp add: transfer_predicate_def)
  then show ?thesis
    using transfer_keys_result [of ?n os m w] assms(2) notify_accepted [OF assms(1,3), of os w] by simp
qed

section \<open>Fingers\<close>

lemma with_lock_finger:
  "\<not> routing_locked n \<Longrightarrow> with_lock (node_mod (\<lambda>n. n\<lparr>finger_table := (finger_table n)[i := x]\<rparr>)) (n, w) =
     (Inr (), (n\<lparr>finger_table := (finger_table n)[i := x]\<rparr>, w))"
  by (cases n) (simp add: with_lock_def)

lemma fix_fingers_result:
  assumes "\<not> routing_locked n" "maintaining n"
  shows "fix_fingers os (n, w) =
    (let i = (next_finger_to_fix n + 1) mod FINGER_TABLE_SIZE; start = get_finger_start n (int i);
         n1 = n\<lparr>next_finger_to_fix := i\<rparr> in
     if responsible n start then (Inr (), (n1\<lparr>finger_table := (finger_table n)[i := Some (self_info n)]\<rparr>, w))
     else if successor_covers n start
     then (Inr (), (n1\<lparr>finger_table := (finger_table n)[i := successor_list n ! 0]\<rparr>, w))
     else (Inl Deadlock, (n1\<lparr>routing_locked := True\<rparr>, w)))"
proof -
  let ?i = "Suc (next_finger_to_fix n) mod FINGER_TABLE_SIZE"
  let ?s = "get_finger_start n (int ?i)"
  let ?n = "n\<lparr>next_finger_to_fix := ?i\<rparr>"
  have l: "\<not> routing_locked ?n" using assms by simp
  have r: "responsible ?n h = responsible n h" "successor_covers ?n h = successor_covers n h" for h
    by (simp_all add: responsible_def successor_covers_def cong: option.case_cong)
  have g: "get_finger_start (n\<lparr>routing_locked := True\<rparr>) j = get_finger_start n j" for j
    by (simp add: get_finger_start_def)
  have "fix_fingers os (n, w) = bindP (find_successor os ?s) (\<lambda>successor.
         case successor of
           None \<Rightarrow> ret ()
         | Some s \<Rightarrow> with_lock (node_mod (\<lambda>n. n\<lparr>finger_table := (finger_table n)[?i := successor]\<rparr>))) (?n, w)"
  proof -
    have "with_lock (\<lambda>(n, w). let i = (next_finger_to_fix n + 1) mod FINGER_TABLE_SIZE in
            (Inr (i, get_finger_start n (int i)), (n\<lparr>next_finger_to_fix := i\<rparr>, w))) (n, w) =
          (Inr (?i, ?s), (?n, w))"
      using assms g by (cases n) (simp add: with_lock_def Let_def)
    then show ?thesis using assms by (simp add: fix_fingers_def bindP_def)
  qed
  also have "\<dots> = (if responsible n ?s then (Inr (), (?n\<lparr>finger_table := (finger_table n)[?i := Some (self_info n)]\<rparr>, w))
     else if successor_covers n ?s
     then (Inr (), (?n\<lparr>finger_table := (finger_table n)[?i := successor_list n ! 0]\<rparr>, w))
     else (Inl Deadlock, (?n\<lparr>routing_locked := True\<rparr>, w)))"
    unfolding bindP_def find_successor_free [OF l, of os ?s w] r
    using with_lock_finger [OF l] by (cases "successor_list n ! 0") (auto simp: successor_covers_def)
  finally show ?thesis by (simp add: Let_def)
qed

section \<open>Failure of a node\<close>

lemma first_index_None: "first_index P xs = None \<longleftrightarrow> (\<forall>x \<in> set xs. \<not> P x)"
  by (induction xs) auto

lemma check_primary_held: "routing_locked n \<Longrightarrow> check_primary k (n, w) = (Inl Deadlock, (n, w))"
  by (simp add: check_primary_def bindP_def Let_def)

lemma trigger_held:
  assumes "routing_locked n"
  shows "trigger_re_replication os (n, w) =
    (if storage_get_all_keys (local_storage n) = [] then (Inr (), (n, w)) else (Inl Deadlock, (n, w)))"
  using assms
  by (cases "data (local_storage n)")
     (auto simp: trigger_re_replication_def verify_and_repair_replicas_def bindP_def check_primary_held
       storage_get_all_keys_def storage_get_all_data_def push_keys_map)

lemma handle_node_failure_free:
  assumes "\<not> routing_locked n"
  shows "fst (handle_node_failure os m (n, w)) =
    (if (\<exists>s \<in> set (successor_list n). points_to m s) \<or> storage_get_all_keys (local_storage n) \<noteq> []
     then Inl Deadlock else Inr ())"
proof (cases "first_index (points_to m) (successor_list n)")
  case None
  then show ?thesis
    using assms first_index_None [of "points_to m" "successor_list n"]
    by (auto simp: handle_node_failure_def with_lock_def bindP_def trigger_held)
next
  case (Some i)
  then have "\<exists>s \<in> set (successor_list n). points_to m s"
    using first_index_None [of "points_to m" "successor_list n"] by auto
  then show ?thesis
    using assms Some by (simp add: handle_node_failure_def with_lock_def bindP_def)
qed

section \<open>Properties\<close>

text \<open>
  C6. The complete behaviour of \<open>find_successor\<close> on a node whose mutex is free: the node itself for an
  identifier it is responsible for, its successor for one in \<open>(self, successor]\<close>, and otherwise the
  calling thread blocks for ever, because \<open>find_successor\<close> calls \<open>closest_preceding_node\<close> with the
  routing mutex held and that function locks it again. The mutex stays locked.
\<close>

theorem find_successor_outcome:
  assumes "\<not> routing_locked n"
  shows "find_successor os hid (n, w) =
    (if responsible n hid then (Inr (Some (self_info n)), (n, w))
     else if successor_covers n hid then (Inr (successor_list n ! 0), (n, w))
     else (Inl Deadlock, (n\<lparr>routing_locked := True\<rparr>, w)))"
  by (rule find_successor_free [OF assms])

text \<open>Two nodes of a ring with identifiers 1 and 2 in their first bytes.\<close>

definition ring_node :: "byte \<Rightarrow> byte \<Rightarrow> byte \<Rightarrow> ChordNode" where
  "ring_node p i s = (chord_node_new ''127.0.0.1'' 8001)
     \<lparr>self_info := \<lparr>ni_id = mk_hash160 [i], ni_address = ''127.0.0.1'', ni_port = ucast i\<rparr>,
      predecessor := Some \<lparr>ni_id = mk_hash160 [p], ni_address = ''127.0.0.1'', ni_port = ucast p\<rparr>,
      successor_list := replicate 8 (Some \<lparr>ni_id = mk_hash160 [s], ni_address = ''127.0.0.1'', ni_port = ucast s\<rparr>)\<rparr>"

lemma ring_node_select [simp]:
  "ni_id (self_info (ring_node p i s)) = mk_hash160 [i]" "\<not> routing_locked (ring_node p i s)"
  "predecessor (ring_node p i s) = Some \<lparr>ni_id = mk_hash160 [p], ni_address = ''127.0.0.1'', ni_port = ucast p\<rparr>"
  "successor_list (ring_node p i s) ! 0 = Some \<lparr>ni_id = mk_hash160 [s], ni_address = ''127.0.0.1'', ni_port = ucast s\<rparr>"
  by (simp_all add: ring_node_def chord_node_new_def Let_def)

lemma ring_node_successors:
  "successor_list (ring_node p i s) =
     replicate 8 (Some \<lparr>ni_id = mk_hash160 [s], ni_address = ''127.0.0.1'', ni_port = ucast s\<rparr>)"
  by (simp add: ring_node_def)

lemma mk_hash_less [simp]: "mk_hash160 [a] < mk_hash160 [b] \<longleftrightarrow> a < b"
proof -
  have "hval (mk_hash160 [x]) = unat x * 256 ^ 19" for x by (simp add: hval_def)
  then show ?thesis by (simp add: less_hval word_less_nat_alt)
qed

lemma mk_hash_le [simp]: "mk_hash160 [a] \<le> mk_hash160 [b] \<longleftrightarrow> a \<le> b"
  using mk_hash_less [of b a] by (simp add: not_less [symmetric])

lemma mk_hash_eq [simp]: "mk_hash160 [a] = mk_hash160 [b] \<longleftrightarrow> a = b"
  by (simp add: hash_bytes_eq_iff [symmetric])

theorem find_successor_outcome_witness:
  "find_successor (net_os []) (mk_hash160 [7]) (ring_node 1 2 3, example_net) =
     (Inl Deadlock, ((ring_node 1 2 3)\<lparr>routing_locked := True\<rparr>, example_net)) \<and>
   find_successor (net_os []) (mk_hash160 [3]) (ring_node 1 2 3, example_net) =
     (Inr (successor_list (ring_node 1 2 3) ! 0), (ring_node 1 2 3, example_net))"
  using find_successor_outcome [of "ring_node 1 2 3" "net_os []" "mk_hash160 [7]" example_net]
    find_successor_outcome [of "ring_node 1 2 3" "net_os []" "mk_hash160 [3]" example_net]
  by (simp add: responsible_def successor_covers_def in_range_def)

text \<open>Rings of nodes with correct predecessor pointers.\<close>

definition ring_ids :: "ChordNode set \<Rightarrow> Hash160 set" where
  "ring_ids N = (\<lambda>n. ni_id (self_info n)) ` N"

definition correct_predecessor :: "ChordNode set \<Rightarrow> ChordNode \<Rightarrow> bool" where
  "correct_predecessor N n =
     (case predecessor n of None \<Rightarrow> False
      | Some p \<Rightarrow> ring_pred (ring_ids N) (ni_id p) (ni_id (self_info n)))"

lemma correct_predecessorE:
  assumes "correct_predecessor N n"
  obtains p where "predecessor n = Some p" "ring_pred (ring_ids N) (ni_id p) (ni_id (self_info n))"
  using assms by (auto simp: correct_predecessor_def split: option.splits)

lemma ring_partition:
  assumes "finite N" "N \<noteq> {}" "inj_on (\<lambda>n. ni_id (self_info n)) N" "\<forall>n \<in> N. correct_predecessor N n"
  shows "\<exists>!n. n \<in> N \<and> responsible n h"
proof -
  let ?id = "\<lambda>n. ni_id (self_info n)"
  define owner where "owner x = ni_id (the (predecessor (THE n. n \<in> N \<and> ?id n = x)))" for x
  have the: "(THE m. m \<in> N \<and> ?id m = ?id n) = n" if "n \<in> N" for n
    using that assms(3) by (auto simp: inj_on_def intro: the_equality)
  have pred: "ring_pred (ring_ids N) (owner (?id n)) (?id n)"
    "responsible n h = in_range h (owner (?id n)) (?id n) True" if n: "n \<in> N" for n
  proof -
    have "correct_predecessor N n" using assms(4) n by blast
    then obtain p where "predecessor n = Some p" "ring_pred (ring_ids N) (ni_id p) (?id n)"
      by (rule correct_predecessorE)
    then show "ring_pred (ring_ids N) (owner (?id n)) (?id n)"
      "responsible n h = in_range h (owner (?id n)) (?id n) True"
      by (simp_all add: owner_def the [OF n] responsible_pred)
  qed
  have "\<exists>x \<in> ring_ids N. in_range h (owner x) x True"
    by (rule ring_owner_exists) (use assms(1,2) pred(1) in \<open>auto simp: ring_ids_def\<close>)
  then obtain n where n: "n \<in> N" "responsible n h" using pred(2) by (auto simp: ring_ids_def)
  moreover have "m = n" if m: "m \<in> N" "responsible m h" for m
  proof -
    have "?id m = ?id n"
      by (rule ring_owner_unique [OF pred(1) [OF m(1)] pred(1) [OF n(1)], of h])
         (use m n pred(2) in \<open>auto simp: ring_ids_def\<close>)
    then show ?thesis using m(1) n(1) assms(3) by (auto simp: inj_on_def)
  qed
  ultimately show ?thesis by blast
qed

text \<open>
  C5. On a ring of at least two nodes whose predecessor pointers are correct, the identifiers are
  partitioned: for every key exactly one node answers true to \<open>is_responsible_for_key\<close>.
\<close>

theorem chord_ring_partition:
  assumes "finite N" "N \<noteq> {}" "inj_on (\<lambda>n. ni_id (self_info n)) N" "\<forall>n \<in> N. correct_predecessor N n"
  shows "\<exists>!n. n \<in> N \<and> responsible n h"
  by (rule ring_partition [OF assms])

lemma two_node_ring:
  "ring_ids {ring_node 2 1 2, ring_node 1 2 1} = {mk_hash160 [1], mk_hash160 [2]}"
  "\<forall>n \<in> {ring_node 2 1 2, ring_node 1 2 1}. correct_predecessor {ring_node 2 1 2, ring_node 1 2 1} n"
  by (simp_all add: ring_ids_def correct_predecessor_def ring_pred_def in_range_def)

theorem chord_ring_partition_witness:
  "\<exists>!n. n \<in> {ring_node 2 1 2, ring_node 1 2 1} \<and> responsible n (mk_hash160 [9])"
  by (rule chord_ring_partition) (use two_node_ring(2) in \<open>simp_all add: inj_on_def\<close>)

definition correct_successor :: "ChordNode set \<Rightarrow> ChordNode \<Rightarrow> bool" where
  "correct_successor N n =
     (case successor_list n ! 0 of
        None \<Rightarrow> False
      | Some s \<Rightarrow> (\<exists>m \<in> N. ni_id (self_info m) = ni_id s \<and>
          (case predecessor m of None \<Rightarrow> False | Some q \<Rightarrow> ni_id q = ni_id (self_info n))))"

text \<open>
  C17. Whatever \<open>find_successor\<close> returns on such a ring is right: if every node's first successor is the
  node whose predecessor it is, a result of \<open>find_successor\<close> is the identifier of the node that
  is responsible for the key.
\<close>

theorem find_successor_finds_owner:
  assumes "correct_successor N n" "n \<in> N" "\<not> routing_locked n"
    and "find_successor os h (n, w) = (Inr r, (n', w'))"
  shows "\<exists>x. r = Some x \<and> (\<exists>m \<in> N. responsible m h \<and> ni_id (self_info m) = ni_id x)"
proof (cases "responsible n h")
  case True
  then show ?thesis using assms(2,4) find_successor_free [OF assms(3), of os h w] by auto
next
  case False
  then have c: "successor_covers n h" "r = successor_list n ! 0"
    using assms(4) find_successor_free [OF assms(3), of os h w] by (auto split: if_splits)
  obtain s m q where s: "successor_list n ! 0 = Some s" "m \<in> N" "ni_id (self_info m) = ni_id s"
    "predecessor m = Some q" "ni_id q = ni_id (self_info n)"
    using assms(1) by (auto simp: correct_successor_def split: option.splits)
  then have "responsible m h" using c(1) by (simp add: responsible_pred successor_covers_def)
  then show ?thesis using c(2) s by auto
qed

theorem find_successor_finds_owner_witness:
  "\<exists>x. successor_list (ring_node 2 1 2) ! 0 = Some x \<and>
     (\<exists>m \<in> {ring_node 2 1 2, ring_node 1 2 1}. responsible m (mk_hash160 [2]) \<and> ni_id (self_info m) = ni_id x)"
proof (rule find_successor_finds_owner [of _ "ring_node 2 1 2" "net_os []" _ example_net _ "ring_node 2 1 2" example_net])
  show "find_successor (net_os []) (mk_hash160 [2]) (ring_node 2 1 2, example_net) =
      (Inr (successor_list (ring_node 2 1 2) ! 0), (ring_node 2 1 2, example_net))"
    using find_successor_free [of "ring_node 2 1 2" "net_os []" "mk_hash160 [2]" example_net]
    by (simp add: responsible_def successor_covers_def in_range_def word_le_nat_alt)
qed (simp_all add: correct_successor_def)

text \<open>
  C26. A node that is told of a failed node blocks for ever whenever it should repair its successor
  list, and whenever it stores at least one key: \<open>handle_node_failure\<close> holds the routing mutex
  while it calls \<open>find_successor\<close> and \<open>is_responsible_for_key\<close>. It returns only when the failed
  node is not in the successor list and the local store is empty.
\<close>

theorem handle_node_failure_deadlocks:
  assumes "\<not> routing_locked n"
  shows "fst (handle_node_failure os m (n, w)) =
    (if (\<exists>s \<in> set (successor_list n). points_to m s) \<or> storage_get_all_keys (local_storage n) \<noteq> []
     then Inl Deadlock else Inr ())"
  by (rule handle_node_failure_free [OF assms])

theorem handle_node_failure_deadlocks_witness:
  "fst (handle_node_failure (net_os []) \<lparr>ni_id = mk_hash160 [3], ni_address = ''127.0.0.1'', ni_port = 3\<rparr>
     (ring_node 1 2 3, example_net)) = Inl Deadlock"
  using handle_node_failure_deadlocks [of "ring_node 1 2 3" "net_os []"
      "\<lparr>ni_id = mk_hash160 [3], ni_address = ''127.0.0.1'', ni_port = 3\<rparr>" example_net]
  by (simp add: ring_node_successors)

text \<open>
  C30. Stabilisation never changes the ring: one round of \<open>stabilize\<close> returns with the predecessor, the
  successor list, the finger table and the store as they were, whatever the network does; only
  the failure detector learns something. The protocol's answers are placeholders that return the
  node that was asked.
\<close>

theorem stabilize_changes_nothing:
  assumes "\<not> routing_locked n"
  shows "\<exists>fd w'. stabilize os (n, w) = (Inr (), (n\<lparr>failure_detector := fd\<rparr>, w'))"
  by (rule stabilize_result [OF assms])

theorem stabilize_changes_nothing_witness:
  "\<exists>fd w'. stabilize (net_os []) (ring_node 1 2 3, example_net) = (Inr (), ((ring_node 1 2 3)\<lparr>failure_detector := fd\<rparr>, w'))"
  by (rule stabilize_changes_nothing) simp

text \<open>
  C27. A notification that is accepted makes the sender the predecessor and moves no key except those
  whose hash is exactly the sender's identifier: the range of the transfer is computed from the
  new predecessor, so the keys between the old predecessor and the new one stay behind on a node
  that no longer is responsible for them.
\<close>

theorem notify_moves_no_keys:
  assumes "chord_wf n" "accepts_predecessor n m"
  shows "\<exists>n' w'. notify os (Some m) (n, w) = (Inr (), (n', w')) \<and> predecessor n' = Some m \<and>
    (\<forall>k. SHA1_hash k \<noteq> ni_id m \<longrightarrow> storage_map (local_storage n') k = storage_map (local_storage n) k)"
  using notify_result [of n m os w] assms by (auto simp: chord_wf_def)

theorem notify_moves_no_keys_witness:
  "\<exists>n' w'. notify (net_os []) (Some \<lparr>ni_id = mk_hash160 [3], ni_address = ''h'', ni_port = 3\<rparr>) (ring_node 1 5 9, example_net) =
      (Inr (), (n', w')) \<and> predecessor n' = Some \<lparr>ni_id = mk_hash160 [3], ni_address = ''h'', ni_port = 3\<rparr> \<and>
    (\<forall>k. SHA1_hash k \<noteq> mk_hash160 [3] \<longrightarrow> storage_map (local_storage n') k = storage_map (local_storage (ring_node 1 5 9)) k)"
proof -
  let ?m = "\<lparr>ni_id = mk_hash160 [3], ni_address = ''h'', ni_port = 3\<rparr>"
  have "chord_wf (ring_node 1 5 9)"
    using chord_wf_new [of "''127.0.0.1''" 8001] by (simp add: chord_wf_def ring_node_def)
  moreover have "accepts_predecessor (ring_node 1 5 9) ?m"
    by (simp add: accepts_predecessor_def in_range_def)
  ultimately show ?thesis using notify_moves_no_keys [of "ring_node 1 5 9" ?m "net_os []" example_net] by simp
qed

end
