(* ===== verification/Chord_Data.thy ===== *)
theory Chord_Data
  imports Chord_Routing
begin

text \<open>
  The data operations of the Chord node on each branch: the owner of a key with and without
  replicas, the forwarding node, and the failure of replication. A node alone in its ring is a
  key-value store in the sense of the locale \<open>kv_store\<close>.
\<close>

section \<open>The owner of a key\<close>

lemma replica_nodes_storage [simp]: "replica_nodes (n\<lparr>local_storage := st\<rparr>) = replica_nodes n"
  "replica_nodes (n\<lparr>local_storage := st, replication_manager := replication_manager n\<rparr>) = replica_nodes n"
  by (simp_all add: replica_nodes_def cong: option.case_cong)

lemma replica_nodes_replicate [simp]:
  "rm_config rm = rm_config (replication_manager n) \<Longrightarrow> replica_nodes (n\<lparr>replication_manager := rm\<rparr>) = replica_nodes n"
  by (simp add: replica_nodes_def get_replication_factor_def cong: option.case_cong)

lemma store_key_owner:
  assumes "\<not> routing_locked n" "responsible n (SHA1_hash key)"
  shows "store_key os key v (n, w) =
    (let st = storage_put (local_storage n) key v in
     if replica_nodes n = [] then (Inr True, (n\<lparr>local_storage := st\<rparr>, w))
     else case replicate_put os key v (replica_nodes n) (replication_manager n) w of (ok, rm, w1) \<Rightarrow>
       if ok then (Inr True, (n\<lparr>local_storage := st, replication_manager := rm\<rparr>, w1))
       else (Inr False, (n\<lparr>local_storage := snd (storage_remove st key), replication_manager := rm\<rparr>, w1)))"
proof -
  have l: "\<not> routing_locked (n\<lparr>local_storage := st\<rparr>)" for st using assms by simp
  show ?thesis
    using assms
    by (auto simp: store_key_def store_write_def store_replicate_def bindP_def Let_def is_responsible_free get_replica_nodes_free [OF l]
        node_replicate_put_def split: prod.splits)
qed

lemma retrieve_key_owner:
  assumes "\<not> routing_locked n" "responsible n (SHA1_hash key)"
  shows "retrieve_key os key v (n, w) =
    (case storage_map (local_storage n) key of
       Some x \<Rightarrow> (Inr (True, x), (n, w))
     | None \<Rightarrow>
         if replica_nodes n = [] then (Inr (False, v), (n, w))
         else case get_from_replicas os key v (replica_nodes n) w of (r, w1) \<Rightarrow> (Inr r, (n, w1)))"
  using assms
  by (auto simp: retrieve_key_def bindP_def Let_def is_responsible_free get_replica_nodes_free
      node_get_from_replicas_def storage_get_map split: prod.splits option.splits)

lemma remove_key_owner_local:
  assumes "\<not> routing_locked n" "responsible n (SHA1_hash key)" "storage_map (local_storage n) key \<noteq> None"
  shows "remove_key os key (n, w) =
    (let st = snd (storage_remove (local_storage n) key) in
     if replica_nodes n = [] then (Inr True, (n\<lparr>local_storage := st\<rparr>, w))
     else case replicate_delete os key (replica_nodes n) (replication_manager n) w of (_, rm, w1) \<Rightarrow>
       (Inr True, (n\<lparr>local_storage := st, replication_manager := rm\<rparr>, w1)))"
proof -
  have l: "\<not> routing_locked (n\<lparr>local_storage := st\<rparr>)" for st using assms by simp
  show ?thesis
    using assms
    by (auto simp: remove_key_def remove_lookup_def remove_erase_def bindP_def Let_def is_responsible_free get_replica_nodes_free [OF l]
        node_replicate_delete_def storage_get_map split: prod.splits option.splits)
qed

lemma remove_key_owner_absent:
  assumes "\<not> routing_locked n" "responsible n (SHA1_hash key)" "storage_map (local_storage n) key = None"
    and "replica_nodes n = []"
  shows "remove_key os key (n, w) = (Inr False, (n, w))"
  using assms
  by (simp add: remove_key_def remove_lookup_def bindP_def Let_def is_responsible_free get_replica_nodes_free storage_get_map)

section \<open>A node alone in its ring\<close>

definition alone :: "ChordNode \<Rightarrow> bool" where
  "alone n \<longleftrightarrow> chord_wf n \<and> predecessor n = None \<and> replica_nodes n = []"

lemma alone_responsible: "alone n \<Longrightarrow> \<not> routing_locked n \<and> responsible n h"
  by (simp add: alone_def chord_wf_def responsible_def)

lemma alone_storage: "alone n \<Longrightarrow> storage_wf st \<Longrightarrow> alone (n\<lparr>local_storage := st\<rparr>)"
  by (simp add: alone_def chord_wf_def)

lemma alone_new: "alone (chord_node_new a p)"
  using chord_wf_new [of a p] by (simp add: alone_def replica_nodes_def chord_node_new_def Let_def)

text \<open>The three operations as functions of the node; alone, it does not touch the network.\<close>

definition chord_get :: "'w os \<Rightarrow> 'w \<Rightarrow> ChordNode \<Rightarrow> string \<Rightarrow> bytes \<Rightarrow> bool \<times> bytes" where
  "chord_get os w n key v =
     (case fst (retrieve_key os key v (n, w)) of Inl f \<Rightarrow> (False, v) | Inr r \<Rightarrow> r)"

definition chord_put :: "'w os \<Rightarrow> 'w \<Rightarrow> ChordNode \<Rightarrow> string \<Rightarrow> bytes \<Rightarrow> ChordNode" where
  "chord_put os w n key v = fst (snd (store_key os key v (n, w)))"

definition chord_remove :: "'w os \<Rightarrow> 'w \<Rightarrow> ChordNode \<Rightarrow> string \<Rightarrow> bool \<times> ChordNode" where
  "chord_remove os w n key =
     (case remove_key os key (n, w) of (r, (n', w')) \<Rightarrow> (r = Inr True, n'))"

lemma alone_put: "alone n \<Longrightarrow> store_key os key v (n, w) =
    (Inr True, (n\<lparr>local_storage := storage_put (local_storage n) key v\<rparr>, w))"
  using alone_responsible [of n "SHA1_hash key"] by (simp add: store_key_owner alone_def)

lemma alone_get: "alone n \<Longrightarrow> retrieve_key os key v (n, w) =
    (Inr (case storage_map (local_storage n) key of Some x \<Rightarrow> (True, x) | None \<Rightarrow> (False, v)), (n, w))"
  using alone_responsible [of n "SHA1_hash key"] by (simp add: retrieve_key_owner alone_def split: option.split)

lemma alone_remove: "alone n \<Longrightarrow> remove_key os key (n, w) =
    (Inr (storage_map (local_storage n) key \<noteq> None),
     (if storage_map (local_storage n) key = None then n
      else n\<lparr>local_storage := snd (storage_remove (local_storage n) key)\<rparr>, w))"
  using alone_responsible [of n "SHA1_hash key"]
  by (cases "storage_map (local_storage n) key")
     (simp_all add: remove_key_owner_local remove_key_owner_absent alone_def)

interpretation lone_node: kv_store "chord_get os w" "chord_put os w" "chord_remove os w"
    "\<lambda>n. storage_map (local_storage n)" alone for os and w
proof unfold_locales
  fix n key v
  assume n: "alone n"
  have wf: "storage_wf (local_storage n)" using n by (simp add: alone_def chord_wf_def)
  show "chord_get os w n key v =
      (case storage_map (local_storage n) key of Some x \<Rightarrow> (True, x) | None \<Rightarrow> (False, v))"
    by (simp add: chord_get_def alone_get [OF n] split: option.split)
  show "storage_map (local_storage (chord_put os w n key v)) = (storage_map (local_storage n))(key \<mapsto> v)"
    by (simp add: chord_put_def alone_put [OF n])
  show "storage_map (local_storage (snd (chord_remove os w n key))) = (storage_map (local_storage n))(key := None)"
    by (auto simp: chord_remove_def alone_remove [OF n])
  show "fst (chord_remove os w n key) \<longleftrightarrow> storage_map (local_storage n) key \<noteq> None"
    by (simp add: chord_remove_def alone_remove [OF n])
  show "alone (chord_put os w n key v)"
    using n wf by (simp add: chord_put_def alone_put alone_storage)
  show "alone (snd (chord_remove os w n key))"
    using n wf by (simp add: chord_remove_def alone_remove alone_storage)
qed

text \<open>
  A freshly created node stores data correctly while it is alone: after any sequence of
  \<open>store_key\<close> and \<open>remove_key\<close>, \<open>retrieve_key\<close> returns the value of the last store of the key
  unless a remove of it follows, and it uses the network for none of it.
\<close>

theorem lone_node_last_write:
  "chord_get os w (foldl (kv_apply (chord_put os w) (chord_remove os w)) (chord_node_new a p) us) key v =
     (case find (\<lambda>u. update_key u = key) (rev us) of
        Some (Put_op k' x) \<Rightarrow> (True, x)
      | Some (Remove_op k') \<Rightarrow> (False, v)
      | None \<Rightarrow> (False, v))"
proof -
  have "chord_get os w (chord_node_new a p) key v = (False, v)"
    using lone_node.get_lookup [OF alone_new] by (simp add: chord_node_new_def Let_def)
  then show ?thesis
    unfolding lone_node.get_last_write [OF alone_new] by (auto split: option.splits kv_update.splits)
qed

section \<open>Replicated stores\<close>

lemma length_replica_nodes: "int (length (replica_nodes n)) \<le> max 0 (get_replication_factor (replication_manager n) - 1)"
proof -
  let ?q = "nat (min (get_replication_factor (replication_manager n) - 1) (int SUCCESSOR_LIST_SIZE))"
  have "length (replica_nodes n) \<le> length (take ?q (successor_list n))"
    unfolding replica_nodes_def by (rule length_filter_le)
  also have "\<dots> \<le> ?q" by simp
  finally show ?thesis by linarith
qed

lemma replica_nodes_factor: "replica_nodes n \<noteq> [] \<Longrightarrow> 1 < get_replication_factor (replication_manager n)"
  using length_replica_nodes [of n] by (cases "replica_nodes n") auto

text \<open>A node of a two-node ring and its successor, for the examples.\<close>

definition example_peer :: "u16 \<Rightarrow> NodeInfo" where
  "example_peer p = \<lparr>ni_id = mk_hash160 [2], ni_address = ''127.0.0.1'', ni_port = p\<rparr>"

definition example_node :: "u16 \<Rightarrow> ChordNode" where
  "example_node p = (chord_node_new ''127.0.0.1'' 8001)
     \<lparr>self_info := \<lparr>ni_id = mk_hash160 [1], ni_address = ''127.0.0.1'', ni_port = 8001\<rparr>,
      successor_list := Some (example_peer p) # replicate 7 None\<rparr>"

lemma example_node:
  "chord_wf (example_node p)" "responsible (example_node p) h" "\<not> routing_locked (example_node p)"
  "replica_nodes (example_node p) = [Some (example_peer p)]"
  "replication_manager (example_node p) = replication_manager_new replication_config_default"
  using chord_wf_new [of "''127.0.0.1''" 8001]
  by (simp_all add: example_node_def chord_wf_def responsible_def chord_node_new_def Let_def replica_nodes_def
      example_peer_def replication_manager_new_def replication_config_default_def get_replication_factor_def
      hash_bytes_eq_iff [symmetric] numeral_2_eq_2)

lemma example_manager:
  "\<not> enable_async_replication (rm_config (replication_manager_new replication_config_default))"
  "replication_factor (rm_config (replication_manager_new replication_config_default)) = 3"
  by (simp_all add: replication_manager_new_def replication_config_default_def)

lemma example_idle: "net_idle example_net"
  by (simp add: net_idle_def example_net_def server_new_def store_values_small_def)

lemma example_store:
  assumes "call_small (Put_call key v)"
  shows "\<exists>n' w'. store_key (net_os cs) key v (example_node p, example_net) =
    (Inr (nodes example_net (''127.0.0.1'', p) \<noteq> None \<and> p \<noteq> 0), (n', w'))"
proof -
  let ?rm = "replication_manager_new replication_config_default"
  obtain ok rm w1 where r: "replicate_put (net_os cs) key v [Some (example_peer p)] ?rm example_net = (ok, rm, w1)"
    by (metis prod_cases3)
  have "ok \<longleftrightarrow> replica_up example_net (Some (example_peer p))"
    using replicate_put_ack [OF example_idle assms example_manager(1), of cs "[Some (example_peer p)]"] r
    by (simp add: example_manager)
  then have "ok \<longleftrightarrow> nodes example_net (''127.0.0.1'', p) \<noteq> None \<and> p \<noteq> 0"
    by (auto simp: replica_up_def example_peer_def node_endpoint_def)
  then show ?thesis
    using store_key_owner [OF example_node(3,2), of "net_os cs" key v p example_net] r
    by (simp add: example_node Let_def)
qed

lemma replicate_put_config: "rm_config (fst (snd (replicate_put os key v rs rm w))) = rm_config rm"
  by (simp add: replicate_put_def put_timestamp_def Let_def split: prod.splits)

lemma take_replica_nodes:
  "take (nat (replication_factor (rm_config (replication_manager n)) - 1)) (replica_nodes n) = replica_nodes n"
  using length_replica_nodes [of n] replica_nodes_factor [of n]
  by (cases "replica_nodes n = []") (simp_all add: get_replication_factor_def)

text \<open>What an acknowledged store leaves behind.\<close>

lemma store_key_acknowledged:
  assumes "chord_wf n" "responsible n (SHA1_hash key)"
    and "\<not> enable_async_replication (rm_config (replication_manager n))"
    and "net_idle w" "call_small (Put_call key v)"
    and "store_key (net_os cs) key v (n, w) = (Inr True, (n', w'))"
  shows "\<exists>rm. n' = n\<lparr>local_storage := storage_put (local_storage n) key v, replication_manager := rm\<rparr> \<and>
    rm_config rm = rm_config (replication_manager n) \<and>
    (\<forall>m. Some m \<in> set (replica_nodes n) \<longrightarrow> ni_port m \<noteq> 0 \<and> net_holds w' m key = Some v)"
proof (cases "replica_nodes n = []")
  case True
  have "n\<lparr>local_storage := st\<rparr> = n\<lparr>local_storage := st, replication_manager := replication_manager n\<rparr>" for st
    by (cases n) simp
  then show ?thesis
    using assms(6) store_key_owner [OF _ assms(2), of "net_os cs" v w] assms(1) True
    by (intro exI [of _ "replication_manager n"]) (auto simp: chord_wf_def Let_def)
next
  case False
  let ?rs = "replica_nodes n" and ?rm = "replication_manager n"
  have l: "\<not> routing_locked n" using assms(1) by (simp add: chord_wf_def)
  obtain ok rm w1 where r: "replicate_put (net_os cs) key v ?rs ?rm w = (ok, rm, w1)" by (metis prod_cases3)
  have ok: "ok" "n' = n\<lparr>local_storage := storage_put (local_storage n) key v, replication_manager := rm\<rparr>" "w' = w1"
    using assms(6) store_key_owner [OF l assms(2), of "net_os cs" v w] False r
    by (auto simp: Let_def split: if_splits)
  have "ni_port m \<noteq> 0 \<and> net_holds w' m key = Some v" if m: "Some m \<in> set ?rs" for m
  proof -
    obtain i where i: "i < length ?rs" "?rs ! i = Some m" using m by (auto simp: in_set_conv_nth)
    have "int i < replication_factor (rm_config ?rm) - 1"
      using i(1) length_replica_nodes [of n] replica_nodes_factor [OF False] by (simp add: get_replication_factor_def)
    moreover have "replicate_put (net_os cs) key v ?rs ?rm w = (True, rm, w1)" using r ok(1) by simp
    ultimately have "net_holds w1 m key = Some v"
      using net_replicas.replicate_put_all [OF assms(4,5,3) _ i(1)] i(2) by fastforce
    moreover have "replica_up w (Some m)"
      using replicate_put_ack [OF assms(4,5,3), of cs ?rs] r ok(1) m take_replica_nodes [of n] by auto
    ultimately show ?thesis using ok(3) by (simp add: replica_up_def)
  qed
  then show ?thesis
    using ok(2) replicate_put_config [of "net_os cs" key v ?rs ?rm w] r by fastforce
qed



text \<open>
  A store whose replication fails does not restore the old value: \<open>store_key\<close> on the owner
  returns false only with the key absent from the local store, also when it held a value before.
\<close>

theorem store_key_failure_drops_key:
  assumes "chord_wf n" "responsible n (SHA1_hash key)"
    and "store_key os key v (n, w) = (Inr False, (n', w'))"
  shows "storage_map (local_storage n') key = None"
proof -
  have l: "\<not> routing_locked n" using assms(1) by (simp add: chord_wf_def)
  show ?thesis
    using assms(3) store_key_owner [OF l assms(2), of os v w]
    by (auto simp: Let_def split: if_splits prod.splits)
qed

theorem store_key_failure_drops_key_witness:
  "\<exists>n' w'. store_key (net_os [1]) ''k'' [9] (example_node 9999, example_net) = (Inr False, (n', w')) \<and>
     storage_map (local_storage n') ''k'' = None"
proof -
  obtain n' w' where s: "store_key (net_os [1]) ''k'' [9] (example_node 9999, example_net) = (Inr False, (n', w'))"
    using example_store [of "''k''" "[9]" "[1]" 9999] by (auto simp: example_net_def)
  show ?thesis using store_key_failure_drops_key [OF example_node(1,2) s] s by simp
qed

end
