(* ===== verification/Chord_Invariant.thy ===== *)
theory Chord_Invariant
  imports Chord_Data
begin

text \<open>
  The operations of the Chord node as one transition system: whichever thread runs whichever operation
  next, a node that has not blocked for ever keeps its mutex free between operations, its tables at
  their sizes and its store well formed. The second part follows the predecessor, which only a
  notification can set.
\<close>

section \<open>Operations that keep a property of the node\<close>

definition keeps :: "(ChordNode \<Rightarrow> bool) \<Rightarrow> ('w, 'a) cprog \<Rightarrow> bool" where
  "keeps I m \<longleftrightarrow> (\<forall>n w x n' w'. I n \<longrightarrow> m (n, w) = (Inr x, (n', w')) \<longrightarrow> I n')"

named_theorems keeps_rules \<open>operations that keep well-formed nodes well formed\<close>

lemma keepsI: "(\<And>n w x n' w'. I n \<Longrightarrow> m (n, w) = (Inr x, (n', w')) \<Longrightarrow> I n') \<Longrightarrow> keeps I m"
  unfolding keeps_def by blast

lemma keepsD: "keeps I m \<Longrightarrow> I n \<Longrightarrow> m (n, w) = (Inr x, (n', w')) \<Longrightarrow> I n'"
  unfolding keeps_def by blast

lemma keeps_bind [keeps_rules]: "keeps I m \<Longrightarrow> (\<And>x. keeps I (k x)) \<Longrightarrow> keeps I (bindP m k)"
  by (rule keepsI) (force simp: bindP_eq_Inr dest: keepsD)

lemma keeps_ret [keeps_rules]: "keeps I (ret x)"
  by (simp add: keeps_def)

lemma keeps_get [keeps_rules]: "keeps I (node_get f)"
  by (simp add: keeps_def)

lemma keeps_mod: "(\<And>n. I n \<Longrightarrow> I (f n)) \<Longrightarrow> keeps I (node_mod f)"
  by (simp add: keeps_def)

lemma keeps_if [keeps_rules]: "keeps I a \<Longrightarrow> keeps I b \<Longrightarrow> keeps I (if c then a else b)"
  by simp

lemma keeps_option [keeps_rules]:
  "keeps I a \<Longrightarrow> (\<And>x. keeps I (b x)) \<Longrightarrow> keeps I (case y of None \<Rightarrow> a | Some x \<Rightarrow> b x)"
  by (simp split: option.split)

lemma keeps_prod [keeps_rules]: "(\<And>a b. keeps I (f a b)) \<Longrightarrow> keeps I (case p of (a, b) \<Rightarrow> f a b)"
  by (simp split: prod.split)

lemma keeps_for_each [keeps_rules]: "(\<And>x. keeps I (f x)) \<Longrightarrow> keeps I (for_each f xs)"
  by (induction xs) (simp_all add: keeps_ret keeps_bind)

text \<open>A program that starts by looking at the node.\<close>

lemma keeps_state: "(\<And>n w. keeps I (f n w)) \<Longrightarrow> keeps I (\<lambda>(n, w). f n w (n, w))"
  by (auto simp: keeps_def)

lemma handle_node_failure_result:
  assumes "\<not> routing_locked n" "handle_node_failure os m (n, w) = (Inr x, (n', w'))"
  shows "n' = n\<lparr>predecessor := (if points_to m (predecessor n) then None else predecessor n),
      finger_table := map (\<lambda>f. if points_to m f then successor_list n ! 0 else f) (finger_table n)\<rparr> \<and> w' = w"
proof -
  have "first_index (points_to m) (successor_list n) = None" "storage_get_all_keys (local_storage n) = []"
    using handle_node_failure_free [OF assms(1), of os m w] assms(2)
      first_index_None [of "points_to m" "successor_list n"] by (auto split: if_splits)
  then show ?thesis
    using assms by (cases n) (auto simp: handle_node_failure_def with_lock_def bindP_def trigger_held)
qed

section \<open>The contract of an invariant\<close>

text \<open>
  What a property of nodes must satisfy so that every operation but \<open>notify\<close> keeps it: it implies a free
  mutex and a well-formed store, and it survives each elementary update the operations make.
\<close>

locale node_invariant =
  fixes I :: "ChordNode \<Rightarrow> bool"
  assumes free: "I n \<Longrightarrow> \<not> routing_locked n" and stored: "I n \<Longrightarrow> storage_wf (local_storage n)"
    and detector: "I n \<Longrightarrow> I (n\<lparr>failure_detector := fd\<rparr>)"
    and manager: "I n \<Longrightarrow> I (n\<lparr>replication_manager := rm\<rparr>)"
    and store: "I n \<Longrightarrow> storage_wf st \<Longrightarrow> I (n\<lparr>local_storage := st\<rparr>)"
    and maintain: "I n \<Longrightarrow> I (n\<lparr>maintaining := b\<rparr>)"
    and finger: "I n \<Longrightarrow> i < FINGER_TABLE_SIZE \<Longrightarrow>
      I (n\<lparr>next_finger_to_fix := i, finger_table := (finger_table n)[i := x]\<rparr>)"
    and reset: "I n \<Longrightarrow> I (reset_single n)"
    and join: "I n \<Longrightarrow>
      I (initialize_finger_table (n\<lparr>predecessor := None, successor_list := (successor_list n)[0 := Some e]\<rparr>))"
    and failed: "I n \<Longrightarrow> I (n\<lparr>predecessor := (if c then None else predecessor n),
      finger_table := map g (finger_table n)\<rparr>)"
begin

lemma keeps_lock_get [keeps_rules]: "keeps I (with_lock (node_get f))"
  by (rule keepsI) (simp add: with_lock_get free)

lemma keeps_responsible [keeps_rules]: "keeps I (is_responsible_for_key h)"
  unfolding is_responsible_for_key_def by (rule keeps_lock_get)

lemma keeps_replicas [keeps_rules]: "keeps I (get_replica_nodes h)"
  unfolding get_replica_nodes_def by (rule keeps_lock_get)

lemma keeps_contact [keeps_rules]: "keeps I (contact_node os m operation x)"
proof (rule keepsI)
  fix n w y n' w'
  assume "I n" "contact_node os m operation x (n, w) = (Inr y, (n', w'))"
  then show "I n'" using contact_node_result [of os m operation x n w] detector by auto
qed

lemma keeps_find_successor [keeps_rules]: "keeps I (find_successor os h)"
proof (rule keepsI)
  fix n w x n' w'
  assume n: "I n" "find_successor os h (n, w) = (Inr x, (n', w'))"
  from find_successor_free [OF free [OF n(1)], of os h w] n show "I n'" by (auto split: if_splits)
qed

lemma keeps_stabilize [keeps_rules]: "keeps I (stabilize os)"
proof (rule keepsI)
  fix n w x n' w'
  assume n: "I n" "stabilize os (n, w) = (Inr x, (n', w'))"
  from stabilize_result [OF free [OF n(1)], of os w] n detector show "I n'" by auto
qed

lemma keeps_transfer [keeps_rules]: "keeps I (transfer_keys_to_node os m)"
proof (cases m)
  case None
  then show ?thesis by (simp add: keeps_def transfer_keys_to_node_def)
next
  case (Some t)
  show ?thesis unfolding Some
  proof (rule keepsI)
    fix n w x n' w'
    assume n: "I n" "transfer_keys_to_node os (Some t) (n, w) = (Inr x, (n', w'))"
    from transfer_keys_result [OF stored [OF n(1)], of os t w] n store show "I n'" by auto
  qed
qed

lemma keeps_fix_fingers [keeps_rules]: "keeps I (fix_fingers os)"
proof (rule keepsI)
  fix n w x n' w'
  assume n: "I n" "fix_fingers os (n, w) = (Inr x, (n', w'))"
  show "I n'"
  proof (cases "maintaining n")
    case True
    have "Suc (next_finger_to_fix n) mod FINGER_TABLE_SIZE < FINGER_TABLE_SIZE" by simp
    then show ?thesis
      using n fix_fingers_result [OF free [OF n(1)] True, of os w] finger
      by (auto simp: Let_def split: if_splits)
  next
    case False
    then show ?thesis using n by (simp add: fix_fingers_def)
  qed
qed

lemma keeps_reset [keeps_rules]: "keeps I (with_lock (node_mod reset_single))"
proof (rule keepsI)
  fix n w x n' w'
  assume n: "I n" "with_lock (node_mod reset_single) (n, w) = (Inr x, (n', w'))"
  have "(reset_single (n\<lparr>routing_locked := True\<rparr>))\<lparr>routing_locked := False\<rparr> = reset_single n"
    using free [OF n(1)] by (cases n) (simp add: reset_single_def)
  then show "I n'" using n with_lock_mod [OF free [OF n(1)], of reset_single w] reset [OF n(1)] by auto
qed

lemma keeps_create [keeps_rules]: "keeps I chord_create"
  unfolding chord_create_def by (rule keeps_reset)

lemma keeps_join [keeps_rules]: "keeps I (chord_join e)"
proof -
  let ?f = "\<lambda>x n. initialize_finger_table (n\<lparr>predecessor := None, successor_list := (successor_list n)[0 := Some x]\<rparr>)"
  have j: "chord_join e = (\<lambda>(n, w). (case e of None \<Rightarrow> chord_create
      | Some x \<Rightarrow> if node_eq x (self_info n) then chord_create else with_lock (node_mod (?f x))) (n, w))"
    by (auto simp: chord_join_def fun_eq_iff split: option.split)
  have "keeps I (with_lock (node_mod (?f x)))" for x
  proof (rule keepsI)
    fix n w y n' w'
    assume n: "I n" "with_lock (node_mod (?f x)) (n, w) = (Inr y, (n', w'))"
    have "(?f x (n\<lparr>routing_locked := True\<rparr>))\<lparr>routing_locked := False\<rparr> = ?f x n"
      using free [OF n(1)] by (cases n) (simp add: initialize_finger_table_def)
    then show "I n'" using n with_lock_mod [OF free [OF n(1)], of "?f x" w] join [OF n(1), of x] by auto
  qed
  then show ?thesis unfolding j by (intro keeps_state keeps_option keeps_if keeps_create)
qed

lemma keeps_start [keeps_rules]: "keeps I start_maintenance"
  unfolding start_maintenance_def by (rule keeps_mod) (simp add: maintain)

lemma keeps_stop [keeps_rules]: "keeps I stop_maintenance"
proof -
  have "I n \<Longrightarrow> I (n\<lparr>maintaining := False, replication_manager := stop_async_processing (replication_manager n)\<rparr>)" for n
    using manager [OF maintain [of n False]] by simp
  then show ?thesis unfolding stop_maintenance_def by (intro keeps_mod) simp
qed

lemma keeps_leave [keeps_rules]: "keeps I (chord_leave os)"
  unfolding chord_leave_def by (intro keeps_rules)

lemma keeps_put [keeps_rules]:
  "keeps I (node_mod (\<lambda>n. n\<lparr>local_storage := storage_put (local_storage n) k v\<rparr>))"
  by (rule keeps_mod) (simp add: store stored)

lemma keeps_erase [keeps_rules]:
  "keeps I (node_mod (\<lambda>n. n\<lparr>local_storage := snd (storage_remove (local_storage n) k)\<rparr>))"
  by (rule keeps_mod) (simp add: store stored)

lemma keeps_receive [keeps_rules]: "keeps I (receive_transferred_key k v)"
  unfolding receive_transferred_key_def by (rule keeps_put)

lemma keeps_replication [keeps_rules]:
  "keeps I (node_replicate_put os k v rs)" "keeps I (node_replicate_delete os k rs)"
  "keeps I (node_get_from_replicas os k v rs)"
  by (auto simp: keeps_def node_replicate_put_def node_replicate_delete_def node_get_from_replicas_def
      manager split: prod.splits)

lemma keeps_forward [keeps_rules]: "keeps I (forward_to_responsible os h call x)"
  unfolding forward_to_responsible_def
  by (rule keeps_bind [OF keeps_find_successor])
     (auto simp: keeps_def split: option.splits prod.splits if_splits)

lemma keeps_store [keeps_rules]: "keeps I (store_key os k v)"
  unfolding store_key_def store_write_def store_replicate_def Let_def by (intro keeps_rules)

lemma keeps_retrieve [keeps_rules]: "keeps I (retrieve_key os k v)"
  unfolding retrieve_key_def Let_def by (intro keeps_rules)

lemma keeps_remove [keeps_rules]: "keeps I (remove_key os k)"
  unfolding remove_key_def remove_lookup_def remove_erase_def Let_def by (intro keeps_rules)

lemma keeps_handle [keeps_rules]: "keeps I (handle_node_failure os m)"
proof (rule keepsI)
  fix n w x n' w'
  assume n: "I n" "handle_node_failure os m (n, w) = (Inr x, (n', w'))"
  show "I n'" using handle_node_failure_result [OF free [OF n(1)] n(2)] failed [OF n(1)] by simp
qed

lemma keeps_round [keeps_rules]: "keeps I (failure_detection_round os)"
proof -
  have "keeps I (bindP (with_lock (node_get nodes_to_check)) (\<lambda>to_check.
          bindP (\<lambda>(n, w). case ping_all os to_check (failure_detector n) w of (failed, fd, w1) \<Rightarrow>
                   (Inr failed, (n\<lparr>failure_detector := fd\<rparr>, w1))) (\<lambda>failed_nodes.
          bindP (for_each (handle_node_failure os) failed_nodes) (\<lambda>_.
          (\<lambda>(n, w). case cleanup_old_entries os minutes30 (failure_detector n) w of (fd, w1) \<Rightarrow>
             (Inr (), (n\<lparr>failure_detector := fd\<rparr>, w1)))))))"
    by (intro keeps_bind keeps_for_each keeps_handle keeps_lock_get)
       (auto simp: keeps_def detector split: prod.splits)
  then show ?thesis by (auto simp: failure_detection_round_def keeps_def)
qed

end

section \<open>The node as a transition system\<close>

datatype chord_op =
    Create | Join node_ptr | Leave | Start_maintenance | Stop_maintenance
  | Stabilize | Notify node_ptr | Fix_fingers | Failure_round
  | Store string bytes | Retrieve string bytes | Remove string | Receive string bytes
  | Find_successor Hash160

definition drop_result :: "('w, 'a) cprog \<Rightarrow> ('w, unit) cprog" where
  "drop_result m = bindP m (\<lambda>_. ret ())"

fun run_op :: "'w os \<Rightarrow> chord_op \<Rightarrow> ('w, unit) cprog" where
  "run_op os Create = chord_create"
| "run_op os (Join e) = chord_join e"
| "run_op os Leave = chord_leave os"
| "run_op os Start_maintenance = start_maintenance"
| "run_op os Stop_maintenance = stop_maintenance"
| "run_op os Stabilize = stabilize os"
| "run_op os (Notify m) = notify os m"
| "run_op os Fix_fingers = fix_fingers os"
| "run_op os Failure_round = failure_detection_round os"
| "run_op os (Store k v) = drop_result (store_key os k v)"
| "run_op os (Retrieve k v) = drop_result (retrieve_key os k v)"
| "run_op os (Remove k) = drop_result (remove_key os k)"
| "run_op os (Receive k v) = receive_transferred_key k v"
| "run_op os (Find_successor h) = drop_result (find_successor os h)"

text \<open>
  Operations take the mutex in turns, so a run is a sequence of operations; between them the world
  may change in any way. A run ends when an operation faults.
\<close>

inductive chord_run :: "'w os \<Rightarrow> ChordNode \<Rightarrow> chord_op list \<Rightarrow> ChordNode \<Rightarrow> bool" for os where
  run_start: "chord_run os n [] n"
| run_step: "chord_run os n ops n1 \<Longrightarrow> run_op os op (n1, w) = (Inr (), (n2, w')) \<Longrightarrow> chord_run os n (ops @ [op]) n2"

inductive_cases chord_run_emptyE: "chord_run os n [] n'"

section \<open>Two invariants\<close>

interpretation wf: node_invariant chord_wf
  by unfold_locales (auto simp: chord_wf_def reset_single_def initialize_finger_table_def)

text \<open>No predecessor: only a notification ends this state.\<close>

definition unnotified :: "ChordNode \<Rightarrow> bool" where
  "unnotified n \<longleftrightarrow> chord_wf n \<and> predecessor n = None"

interpretation unnotified: node_invariant unnotified
  by unfold_locales
     (auto simp: unnotified_def chord_wf_def reset_single_def initialize_finger_table_def)

lemma keeps_wf_notify: "keeps chord_wf (notify os m)"
proof (cases m)
  case None
  then show ?thesis by (simp add: keeps_def notify_def)
next
  case (Some t)
  show ?thesis unfolding Some
  proof (rule keepsI)
    fix n w x n' w'
    assume n: "chord_wf n" "notify os (Some t) (n, w) = (Inr x, (n', w'))"
    have l: "\<not> routing_locked n" "storage_wf (local_storage n)" using n(1) by (simp_all add: chord_wf_def)
    show "chord_wf n'"
    proof (cases "accepts_predecessor n t")
      case True
      then show ?thesis
        using notify_result [OF l True, of os w] n by (auto simp: chord_wf_def)
    next
      case False
      then show ?thesis using notify_ignored [OF l(1) False, of os w] n by simp
    qed
  qed
qed

lemma keeps_wf_run_op: "keeps chord_wf (run_op os op)"
  by (cases op) (simp_all add: drop_result_def keeps_rules keeps_wf_notify)

lemma keeps_unnotified_run_op: "(\<forall>m. op \<noteq> Notify m) \<Longrightarrow> keeps unnotified (run_op os op)"
  by (cases op) (simp_all add: drop_result_def keeps_rules)

lemma chord_run_wf: "chord_run os n ops n' \<Longrightarrow> chord_wf n \<Longrightarrow> chord_wf n'"
  by (induction rule: chord_run.induct) (auto dest: keepsD [OF keeps_wf_run_op])

lemma chord_run_unnotified:
  "chord_run os n ops n' \<Longrightarrow> unnotified n \<Longrightarrow> \<forall>m. Notify m \<notin> set ops \<Longrightarrow> unnotified n'"
proof (induction rule: chord_run.induct)
  case (run_step n ops n1 op w n2 w')
  then show ?case using keepsD [OF keeps_unnotified_run_op [of op os]] by fastforce
qed simp

section \<open>Properties\<close>


lemma run_create: "chord_run os (chord_node_new a p) [Create] (chord_node_new a p)"
proof -
  have "run_op os Create (chord_node_new a p, w) = (Inr (), (chord_node_new a p, w))" for w :: 'a
    by (simp add: chord_create_def with_lock_def chord_node_new_def Let_def reset_single_def map_replicate_const)
  then show ?thesis using run_step [OF run_start] by (metis append_Nil)
qed


text \<open>
  C31. A node that receives no notification regards itself as the owner of every key, whatever else it
  does: joining a ring, stabilising, fixing fingers and handling failures never give it a
  predecessor. No code of the repository sends a notification (\<open>contact_node\<close> only pings),
  so the nodes of a running system never divide the keys among themselves.
\<close>

theorem unnotified_node_owns_everything:
  assumes "chord_run os (chord_node_new a p) ops n" "\<forall>m. Notify m \<notin> set ops"
  shows "responsible n h"
proof -
  have "unnotified (chord_node_new a p)"
    using chord_wf_new [of a p] by (simp add: unnotified_def chord_node_new_def Let_def)
  from chord_run_unnotified [OF assms(1) this assms(2)] show ?thesis
    by (simp add: unnotified_def responsible_def)
qed

theorem unnotified_node_owns_everything_witness:
  "responsible (chord_node_new ''127.0.0.1'' 8001) (mk_hash160 [7])"
  by (rule unnotified_node_owns_everything [OF run_create [of "net_os []"]]) simp

end
