(* ===== verification/Chord_Server.thy ===== *)
theory Chord_Server
  imports Chord_Invariant
begin

text \<open>
  The Chord server of \<open>src/include/chord_server.h\<close> and \<open>src/src/chord_server.cpp\<close>: the base server with a
  Chord node, the switch over the Chord operations, redirects, and the life cycle. The node pointer
  is set by the constructor and never null. \<open>ADMIN_SHUTDOWN\<close> starts a thread that calls \<open>stop\<close> a tenth of
  a second later: the model sets \<open>shutdown_pending\<close>, and \<open>shutdown_thread\<close> is that thread's step.
\<close>

section \<open>State\<close>

record ChordServer =
  base :: Server
  chord_node :: ChordNode
  chord_enabled :: bool
  shutdown_pending :: bool

type_synonym ('w, 'a) sprog = "(ChordServer \<times> 'w, 'a) prog"

definition chord_server_new :: "string \<Rightarrow> u16 \<Rightarrow> ChordServer" where
  "chord_server_new address p =
     \<lparr>base = server_new p, chord_node = chord_node_new address p, chord_enabled = False, shutdown_pending = False\<rparr>"

text \<open>A method of the node or of the base class, called on the server.\<close>

definition on_node :: "('w, 'a) cprog \<Rightarrow> ('w, 'a) sprog" where
  "on_node m = (\<lambda>(s, w). case m (chord_node s, w) of (r, (n, w')) \<Rightarrow> (r, (s\<lparr>chord_node := n\<rparr>, w')))"

definition on_base :: "(Server \<times> 'w, 'a) prog \<Rightarrow> ('w, 'a) sprog" where
  "on_base m = (\<lambda>(s, w). case m (base s, w) of (r, (b, w')) \<Rightarrow> (r, (s\<lparr>base := b\<rparr>, w')))"

definition server_mod :: "(ChordServer \<Rightarrow> ChordServer) \<Rightarrow> ('w, unit) sprog" where
  "server_mod f = modP (\<lambda>(s, w). (f s, w))"

section \<open>Life cycle\<close>

definition enable_chord :: "('w, unit) sprog" where
  "enable_chord = bindP (server_mod (\<lambda>s. s\<lparr>chord_enabled := True\<rparr>)) (\<lambda>_. on_node start_maintenance)"

definition disable_chord :: "('w, unit) sprog" where
  "disable_chord = (\<lambda>(s, w).
     if \<not> chord_enabled s then (Inr (), (s, w))
     else bindP (on_node stop_maintenance) (\<lambda>_. server_mod (\<lambda>s. s\<lparr>chord_enabled := False\<rparr>)) (s, w))"

definition create_ring :: "('w, unit) sprog" where
  "create_ring = bindP (on_node chord_create) (\<lambda>_. enable_chord)"

definition join_ring :: "string \<Rightarrow> u16 \<Rightarrow> ('w, unit) sprog" where
  "join_ring known_address known_port =
     bindP (on_node (chord_join (Some (from_address known_address known_port)))) (\<lambda>_. enable_chord)"

definition leave_ring :: "'w os \<Rightarrow> ('w, unit) sprog" where
  "leave_ring os = (\<lambda>(s, w).
     if \<not> chord_enabled s then (Inr (), (s, w))
     else bindP (on_node (chord_leave os)) (\<lambda>_. disable_chord) (s, w))"

definition get_node_info :: "ChordServer \<Rightarrow> NodeInfo" where
  "get_node_info s = self_info (chord_node s)"

definition chord_server_start :: "'w os \<Rightarrow> ('w, unit) sprog" where
  "chord_server_start os =
     bindP (on_base (server_start os)) (\<lambda>_.
       (\<lambda>(s, w). if \<not> chord_enabled s then create_ring (s, w) else (Inr (), (s, w))))"

definition chord_server_stop :: "'w os \<Rightarrow> ('w, unit) sprog" where
  "chord_server_stop os = bindP disable_chord (\<lambda>_. on_base (server_stop os))"

definition shutdown_thread :: "'w os \<Rightarrow> ('w, unit) sprog" where
  "shutdown_thread os = (\<lambda>(s, w).
     if shutdown_pending s
     then bindP (server_mod (\<lambda>s. s\<lparr>shutdown_pending := False\<rparr>)) (\<lambda>_. chord_server_stop os) (s, w)
     else (Inr (), (s, w)))"

section \<open>Requests\<close>

definition node_response :: "NodeInfo \<Rightarrow> StatusCode \<Rightarrow> Response" where
  "node_response n status = \<lparr>resp_status = status, resp_value = bytes_of_string (node_key n)\<rparr>"

definition status_response :: "StatusCode \<Rightarrow> Response" where
  "status_response status = \<lparr>resp_status = status, resp_value = []\<rparr>"

text \<open>The three data operations, after the redirect test.\<close>

definition handle_local :: "'w os \<Rightarrow> OpCode \<Rightarrow> string \<Rightarrow> bytes \<Rightarrow> ('w, Response) sprog" where
  "handle_local os opcode key value =
     (case opcode of
        GET \<Rightarrow> bindP (on_node (retrieve_key os key [])) (\<lambda>(found, v).
                 ret (if found then \<lparr>resp_status = SUCCESS, resp_value = v\<rparr> else status_response KEY_NOT_FOUND))
      | PUT \<Rightarrow> bindP (on_node (store_key os key value)) (\<lambda>ok.
                 ret (status_response (if ok then SUCCESS else ERROR)))
      | DELETE \<Rightarrow> bindP (on_node (remove_key os key)) (\<lambda>ok.
                 ret (status_response (if ok then SUCCESS else KEY_NOT_FOUND)))
      | _ \<Rightarrow> ret Response0)"

definition handle_data :: "'w os \<Rightarrow> Request \<Rightarrow> ('w, Response) sprog" where
  "handle_data os request =
     (let key = string_of_bytes (req_key request); key_id = SHA1_hash key;
          local = handle_local os (req_opcode request) key (req_value request) in
      bindP (on_node (is_responsible_for_key key_id)) (\<lambda>own.
        if own then local
        else bindP (on_node (find_successor os key_id)) (\<lambda>node. (\<lambda>(s, w).
          case node of
            None \<Rightarrow> local (s, w)
          | Some r \<Rightarrow>
              if node_ne r (get_node_info s) then (Inr (node_response r REDIRECT), (s, w)) else local (s, w)))))"

text \<open>\<open>NOTIFY\<close>: \<open>std::stoi\<close> is not inside a \<open>try\<close> block.\<close>

definition handle_notify :: "'w os \<Rightarrow> bytes \<Rightarrow> ('w, Response) sprog" where
  "handle_notify os value =
     (if length value > 0
      then (case parse_node (string_of_bytes value) of
              Inl f \<Rightarrow> raise f
            | Inr None \<Rightarrow> ret (status_response SUCCESS)
            | Inr (Some node) \<Rightarrow>
                bindP (on_node (notify os (Some node))) (\<lambda>_. ret (status_response SUCCESS)))
      else ret (status_response SUCCESS))"

text \<open>\<open>None\<close> stands for \<open>return false\<close>: the request is left to the base server.\<close>

definition handle_chord_operation :: "'w os \<Rightarrow> Request \<Rightarrow> ('w, Response option) sprog" where
  "handle_chord_operation os request = (\<lambda>(s, w).
     if \<not> chord_enabled s then (Inr None, (s, w))
     else (case req_opcode request of
        FIND_SUCCESSOR \<Rightarrow>
          if length (req_key request) \<noteq> 20 then ret (Some (status_response ERROR))
          else bindP (on_node (find_successor os (mk_hash160 (req_key request)))) (\<lambda>successor.
            ret (Some (case successor of None \<Rightarrow> status_response ERROR | Some n \<Rightarrow> node_response n SUCCESS)))
      | GET_PREDECESSOR \<Rightarrow>
          bindP (on_node get_predecessor) (\<lambda>p.
            ret (Some (case p of None \<Rightarrow> status_response KEY_NOT_FOUND | Some n \<Rightarrow> node_response n SUCCESS)))
      | GET_SUCCESSOR \<Rightarrow>
          bindP (on_node get_successor) (\<lambda>p.
            ret (Some (case p of None \<Rightarrow> status_response ERROR | Some n \<Rightarrow> node_response n SUCCESS)))
      | NOTIFY \<Rightarrow> bindP (handle_notify os (req_value request)) (\<lambda>r. ret (Some r))
      | NODE_INFO \<Rightarrow> ret (Some (node_response (get_node_info s) SUCCESS))
      | TRANSFER_KEY \<Rightarrow>
          bindP (on_node (receive_transferred_key (string_of_bytes (req_key request)) (req_value request)))
            (\<lambda>_. ret (Some (status_response SUCCESS)))
      | ADMIN_SHUTDOWN \<Rightarrow>
          bindP (server_mod (\<lambda>s. s\<lparr>shutdown_pending := True\<rparr>)) (\<lambda>_. ret (Some (status_response SUCCESS)))
      | GET \<Rightarrow> bindP (handle_data os request) (\<lambda>r. ret (Some r))
      | PUT \<Rightarrow> bindP (handle_data os request) (\<lambda>r. ret (Some r))
      | DELETE \<Rightarrow> bindP (handle_data os request) (\<lambda>r. ret (Some r))
      | _ \<Rightarrow> ret None) (s, w))"

definition chord_process_request :: "'w os \<Rightarrow> int \<Rightarrow> Request \<Rightarrow> ('w, unit) sprog" where
  "chord_process_request os client_fd request =
     bindP (handle_chord_operation os request) (\<lambda>r. (\<lambda>(s, w).
       case r of
         None \<Rightarrow> on_base (server_process_request os client_fd request) (s, w)
       | Some response \<Rightarrow>
           (case server_send_data os client_fd (encodeResponse response) w of (_, w') \<Rightarrow> (Inr (), (s, w')))))"

section \<open>Calls to other servers\<close>

text \<open>The four remote calls: they connect, and all but the last return a placeholder.\<close>

definition remote_connect :: "'w os \<Rightarrow> NodeInfo \<Rightarrow> 'w \<Rightarrow> bool \<times> 'w" where
  "remote_connect os target w =
     (case client_connect os (client_new (ni_address target) (ni_port target)) w of (ok, c, w1) \<Rightarrow>
      (ok, snd (client_disconnect os c w1)))"

definition remote_find_successor :: "'w os \<Rightarrow> NodeInfo \<Rightarrow> Hash160 \<Rightarrow> 'w \<Rightarrow> node_ptr \<times> 'w" where
  "remote_find_successor os target hid w =
     (case remote_connect os target w of (ok, w1) \<Rightarrow> (if ok then Some target else None, w1))"

definition remote_get_predecessor :: "'w os \<Rightarrow> NodeInfo \<Rightarrow> 'w \<Rightarrow> node_ptr \<times> 'w" where
  "remote_get_predecessor os target w = (case remote_connect os target w of (ok, w1) \<Rightarrow> (None, w1))"

definition remote_notify :: "'w os \<Rightarrow> NodeInfo \<Rightarrow> NodeInfo \<Rightarrow> 'w \<Rightarrow> bool \<times> 'w" where
  "remote_notify os target node w = remote_connect os target w"

definition remote_ping :: "'w os \<Rightarrow> NodeInfo \<Rightarrow> 'w \<Rightarrow> bool \<times> 'w" where
  "remote_ping os target w = rm_ping_node os target w"

section \<open>A server alone in its ring\<close>

definition chord_alone :: "ChordServer \<Rightarrow> bool" where
  "chord_alone s \<longleftrightarrow> chord_enabled s \<and> alone (chord_node s)"

definition data_request :: "Request \<Rightarrow> bool" where
  "data_request r \<longleftrightarrow> req_opcode r \<in> {GET, PUT, DELETE, PING}"

definition chord_step :: "ChordServer \<Rightarrow> Request \<Rightarrow> ChordServer" where
  "chord_step s r = s\<lparr>chord_node := (chord_node s)
     \<lparr>local_storage := snd (server_dispatch (local_storage (chord_node s)) r)\<rparr>\<rparr>"

definition chord_reply :: "ChordServer \<Rightarrow> Request \<Rightarrow> bytes" where
  "chord_reply s r = encodeResponse (fst (server_dispatch (local_storage (chord_node s)) r))"

lemma on_node_apply: "m (chord_node s, w) = (r, (n, w')) \<Longrightarrow> on_node m (s, w) = (r, (s\<lparr>chord_node := n\<rparr>, w'))"
  by (simp add: on_node_def)

lemma chord_node_same [simp]: "s\<lparr>chord_node := chord_node s\<rparr> = s"
  by (cases s) simp

lemma local_storage_same [simp]: "n\<lparr>local_storage := local_storage n\<rparr> = n"
  by (cases n) simp

lemma storage_remove_absent: "storage_map st k = None \<Longrightarrow> snd (storage_remove st k) = st"
  by (cases st) (auto simp: storage_remove_def storage_map_def AList.delete_eq map_of_eq_None_iff
      intro!: filter_True image_eqI)

lemma handle_data_alone:
  assumes "chord_alone s" "req_opcode r \<in> {GET, PUT, DELETE}"
  shows "handle_data os r (s, w) =
    (Inr (fst (server_dispatch (local_storage (chord_node s)) r)), (chord_step s r, w))"
proof -
  let ?n = "chord_node s" and ?k = "string_of_bytes (req_key r)"
  have n: "alone ?n" using assms(1) by (simp add: chord_alone_def)
  have "on_node (is_responsible_for_key (SHA1_hash ?k)) (s, w) = (Inr True, (s, w))"
    using alone_responsible [OF n, of "SHA1_hash ?k"] by (simp add: on_node_def is_responsible_free)
  then have h: "handle_data os r (s, w) = handle_local os (req_opcode r) ?k (req_value r) (s, w)"
    by (simp add: handle_data_def bindP_def Let_def)
  consider "req_opcode r = GET" | "req_opcode r = PUT" | "req_opcode r = DELETE" using assms(2) by auto
  then show ?thesis
  proof cases
    case 1
    then show ?thesis unfolding h
      by (simp add: handle_local_def bindP_def on_node_def alone_get [OF n] server_dispatch_get
          chord_step_def status_response_def split: option.split)
  next
    case 2
    then show ?thesis unfolding h
      by (simp add: handle_local_def bindP_def on_node_def alone_put [OF n] server_dispatch_put
          chord_step_def status_response_def)
  next
    case 3
    then show ?thesis unfolding h
      by (simp add: handle_local_def bindP_def on_node_def alone_remove [OF n] server_dispatch_delete
          chord_step_def status_response_def storage_remove_absent)
  qed
qed

lemma chord_process_alone:
  assumes "chord_alone s" "data_request r"
  shows "chord_process_request os fd r (s, w) =
    (Inr (), (chord_step s r, snd (server_send_data os fd (chord_reply s r) w)))"
proof -
  have en: "chord_enabled s" using assms(1) by (simp add: chord_alone_def)
  consider "req_opcode r \<in> {GET, PUT, DELETE}" | "req_opcode r = PING"
    using assms(2) by (auto simp: data_request_def)
  then show ?thesis
  proof cases
    case 1
    then have "handle_chord_operation os r (s, w) =
        (Inr (Some (fst (server_dispatch (local_storage (chord_node s)) r))), (chord_step s r, w))"
      using handle_data_alone [OF assms(1) 1, of os w] en by (auto simp: handle_chord_operation_def bindP_def)
    then show ?thesis by (simp add: chord_process_request_def bindP_def chord_reply_def split: prod.split)
  next
    case 2
    then have "handle_chord_operation os r (s, w) = (Inr None, (s, w))"
      using en by (simp add: handle_chord_operation_def)
    moreover have "server_dispatch st r = (Response0\<lparr>resp_status := SUCCESS\<rparr>, st)" for st
      using 2 by (simp add: server_dispatch_def)
    ultimately show ?thesis
      by (simp add: chord_process_request_def bindP_def on_base_def server_process_request_def chord_step_def
          chord_reply_def split: prod.split)
  qed
qed

lemma chord_alone_step:
  assumes "chord_alone s"
  shows "chord_alone (chord_step s r)"
proof -
  have "storage_wf (local_storage (chord_node s))"
    using assms by (simp add: chord_alone_def alone_def chord_wf_def)
  then show ?thesis
    using assms server_dispatch_wf by (simp add: chord_alone_def chord_step_def alone_storage)
qed

interpretation chord_requests: request_server tcp_os fd tx rx "chord_process_request tcp_os"
    chord_step chord_reply chord_alone data_request for fd
proof unfold_locales
  fix s r and w :: tcp
  assume "chord_alone s" "data_request r"
  then show "\<exists>w'. chord_process_request tcp_os fd r (s, w) = (Inr (), (chord_step s r, w')) \<and>
      tx w' = tx w @ chord_reply s r \<and> rx w' = rx w"
    using tcp_conn.send_step [of fd "chord_reply s r" w]
    by (auto simp: chord_process_alone server_send_data_def)
qed (rule chord_alone_step)

text \<open>The base server that a Chord server alone in its ring implements.\<close>

definition as_base :: "ChordServer \<Rightarrow> Server" where
  "as_base s = (base s)\<lparr>storage := local_storage (chord_node s)\<rparr>"

lemma as_base_step: "as_base (chord_step s r) = server_step (as_base s) r" "chord_reply s r = server_reply (as_base s) r"
  by (simp_all add: as_base_def chord_step_def server_step_def chord_reply_def server_reply_def)

lemma as_base_transcript:
  "transcript chord_step chord_reply s rs = transcript server_step server_reply (as_base s) rs"
  "as_base (foldl chord_step s rs) = foldl server_step (as_base s) rs"
  by (induction rs arbitrary: s) (simp_all add: as_base_step)

section \<open>Requests for keys of other nodes\<close>

lemma handle_data_foreign:
  assumes "\<not> routing_locked (chord_node s)"
    and "\<not> responsible (chord_node s) (SHA1_hash (string_of_bytes (req_key r)))"
  shows "handle_data os r (s, w) =
    (if successor_covers (chord_node s) (SHA1_hash (string_of_bytes (req_key r)))
     then (Inr (node_response (the (successor_list (chord_node s) ! 0)) REDIRECT), (s, w))
     else (Inl Deadlock, (s\<lparr>chord_node := (chord_node s)\<lparr>routing_locked := True\<rparr>\<rparr>, w)))"
proof -
  let ?h = "SHA1_hash (string_of_bytes (req_key r))" and ?n = "chord_node s"
  have own: "on_node (is_responsible_for_key ?h) (s, w) = (Inr False, (s, w))"
    using assms by (simp add: on_node_def is_responsible_free)
  show ?thesis
  proof (cases "successor_covers ?n ?h")
    case True
    then obtain m where m: "successor_list ?n ! 0 = Some m" "in_range ?h (ni_id (self_info ?n)) (ni_id m) True"
      by (auto simp: successor_covers_def split: option.splits)
    have "ni_id m \<noteq> ni_id (self_info ?n)"
    proof
      assume "ni_id m = ni_id (self_info ?n)"
      then have "?h = ni_id (self_info ?n)" using m(2) by simp
      then show False using assms(2) by (auto simp: responsible_def split: option.splits)
    qed
    moreover have "on_node (find_successor os ?h) (s, w) = (Inr (Some m), (s, w))"
      using find_successor_free [OF assms(1), of os ?h w] assms(2) True m(1) by (simp add: on_node_def)
    ultimately show ?thesis
      using own True m(1) by (simp add: handle_data_def bindP_def Let_def get_node_info_def)
  next
    case False
    then have "on_node (find_successor os ?h) (s, w) = (Inl Deadlock, (s\<lparr>chord_node := ?n\<lparr>routing_locked := True\<rparr>\<rparr>, w))"
      using find_successor_free [OF assms(1), of os ?h w] assms(2) by (simp add: on_node_def)
    then show ?thesis using own False by (simp add: handle_data_def bindP_def Let_def)
  qed
qed

lemma handle_chord_data:
  "chord_enabled s \<Longrightarrow> req_opcode r \<in> {GET, PUT, DELETE} \<Longrightarrow>
     handle_chord_operation os r (s, w) = bindP (handle_data os r) (\<lambda>x. ret (Some x)) (s, w)"
  by (auto simp: handle_chord_operation_def)

section \<open>Properties\<close>

text \<open>
  C4. A Chord server alone in its ring implements the base server: on any stream of GET, PUT, DELETE and
  PING requests, cut in any way, its connection loop returns, writes exactly the bytes a base server
  with the same store would write, and ends with the same store.
\<close>

theorem chord_server_refines_base_server:
  assumes "chord_alone s" "\<forall>r \<in> set rs. frame_wf r \<and> data_request r"
  shows "\<exists>s' w. handle_client tcp_os (chord_process_request tcp_os) (length rs + 1) fd
      (s, \<lparr>rx = concat (map encodeRequest rs), tx = [], cuts = cs\<rparr>) = (Inr (), (s', w)) \<and>
    tx w = transcript server_step server_reply (as_base s) rs \<and> as_base s' = foldl server_step (as_base s) rs"
  using chord_requests.handle_client_frames [where s = s and rs = rs and fuel = "length rs + 1" and fd = fd and w =
      "\<lparr>rx = concat (map encodeRequest rs), tx = [], cuts = cs\<rparr>"] assms as_base_transcript [of s rs]
  by auto

lemma started_alone:
  "chord_alone ((chord_server_new a p)\<lparr>chord_enabled := True\<rparr>)"
  using alone_new [of a p] by (simp add: chord_alone_def chord_server_new_def)

theorem chord_server_refines_base_server_witness:
  "\<exists>s' w. handle_client tcp_os (chord_process_request tcp_os) 2 5
      ((chord_server_new ''h'' 1)\<lparr>chord_enabled := True\<rparr>,
       \<lparr>rx = encodeRequest \<lparr>req_opcode = PING, req_key = [], req_value = []\<rparr>, tx = [], cuts = [4]\<rparr>) = (Inr (), (s', w)) \<and>
    tx w = [0, 0, 0, 0, 0]"
proof -
  let ?r = "\<lparr>req_opcode = PING, req_key = [], req_value = []\<rparr>"
  have "frame_wf ?r" "data_request ?r"
    by (simp_all add: frame_wf_def request_wf_def opcode_wf_def opcode_of_byte_def named_opcodes_def data_request_def)
  moreover have "server_reply b ?r = [0, 0, 0, 0, 0]" for b
    by (simp add: server_reply_def server_dispatch_def Response0_def encodeResponse_append bytes_of_u32_def)
  ultimately show ?thesis
    using chord_server_refines_base_server [OF started_alone [of "''h''" 1], where rs = "[?r]" and fd = 5 and cs = "[4]"]
    by (auto simp: numeral_2_eq_2)
qed

text \<open>
  C34. A data request for a key in \<open>(self, successor]\<close> of which the node is not the owner is answered with a
  redirect that names the successor, and the text of the redirect parses back to exactly that node:
  address and port survive the trip through \<open>host:port\<close>, as the client reads it.
\<close>

theorem chord_server_redirects:
  assumes "chord_enabled s" "\<not> routing_locked (chord_node s)" "req_opcode r \<in> {GET, PUT, DELETE}"
    and "\<not> responsible (chord_node s) (SHA1_hash (string_of_bytes (req_key r)))"
    and "successor_covers (chord_node s) (SHA1_hash (string_of_bytes (req_key r)))"
    and "successor_list (chord_node s) ! 0 = Some m" "node_wf m"
  shows "\<exists>resp. handle_chord_operation os r (s, w) = (Inr (Some resp), (s, w)) \<and> resp_status resp = REDIRECT \<and>
    parse_node (string_of_bytes (resp_value resp)) = Inr (Some m)"
  using handle_chord_data [OF assms(1,3), of os w] handle_data_foreign [OF assms(2,4), of os w] assms(5,6)
    parse_node_key [OF assms(7)]
  by (simp add: bindP_def node_response_def)

text \<open>
  Two nodes for the examples: the other node is \<open>h:2\<close>, which is this node's predecessor and, in
  the first example, its successor; this node's identifier is the next one on the circle. The key
  \<open>"h:2"\<close> has the other node's identifier as its hash.
\<close>

definition other_node :: NodeInfo where
  "other_node = from_address ''h'' 2"

definition pair_node :: "node_ptr \<Rightarrow> ChordNode" where
  "pair_node successor = (chord_node_new ''h'' 1)
     \<lparr>self_info := \<lparr>ni_id = add_power_of_two (ni_id other_node) 0, ni_address = ''h'', ni_port = 1\<rparr>,
      predecessor := Some other_node, successor_list := replicate 8 successor\<rparr>"

definition pair_server :: "node_ptr \<Rightarrow> ChordServer" where
  "pair_server successor = (chord_server_new ''h'' 1)\<lparr>chord_enabled := True, chord_node := pair_node successor\<rparr>"

definition pair_request :: Request where
  "pair_request = \<lparr>req_opcode = GET, req_key = bytes_of_string (node_key other_node), req_value = []\<rparr>"

lemma next_id_ne: "add_power_of_two h 0 \<noteq> h"
proof -
  have "(hval h + 1) mod 2 ^ 160 \<noteq> hval h"
    using hval_lt [of h] by (cases "hval h + 1 = 2 ^ 160") (simp_all add: mod_if)
  then show ?thesis using hval_add_power_of_two [of 0 h] by auto
qed

lemma pair_node_facts:
  "chord_enabled (pair_server x)" "\<not> routing_locked (chord_node (pair_server x))"
  "req_opcode pair_request \<in> {GET, PUT, DELETE}"
  "\<not> responsible (chord_node (pair_server x)) (SHA1_hash (string_of_bytes (req_key pair_request)))"
  "successor_list (chord_node (pair_server x)) ! 0 = x" "node_wf other_node"
  "SHA1_hash (string_of_bytes (req_key pair_request)) = ni_id other_node"
  "self_info (chord_node (pair_server x)) = self_info (pair_node x)"
proof -
  show h: "SHA1_hash (string_of_bytes (req_key pair_request)) = ni_id other_node"
    by (simp add: pair_request_def other_node_def from_address_def node_key_def)
  show "\<not> responsible (chord_node (pair_server x)) (SHA1_hash (string_of_bytes (req_key pair_request)))"
    unfolding h using next_id_ne [of "ni_id other_node"]
    by (simp add: pair_server_def pair_node_def responsible_def in_range_closed)
qed (simp_all add: pair_server_def pair_node_def chord_node_new_def Let_def pair_request_def other_node_def)

theorem chord_server_redirects_witness:
  "\<exists>resp. handle_chord_operation tcp_os pair_request (pair_server (Some other_node), \<lparr>rx = [], tx = [], cuts = []\<rparr>) =
      (Inr (Some resp), (pair_server (Some other_node), \<lparr>rx = [], tx = [], cuts = []\<rparr>)) \<and>
    resp_status resp = REDIRECT \<and> parse_node (string_of_bytes (resp_value resp)) = Inr (Some other_node)"
  by (rule chord_server_redirects [OF pair_node_facts(1-4) _ pair_node_facts(5,6)])
     (simp add: successor_covers_def pair_node_facts(5,7))

text \<open>
  C25. A data request for any other key blocks its worker thread for ever and leaves the node's mutex
  locked, so that every later operation of the node blocks as well: a client needs one key outside
  \<open>(predecessor, successor]\<close> to stop the node.
\<close>

theorem chord_server_request_deadlocks:
  assumes "chord_enabled s" "\<not> routing_locked (chord_node s)" "req_opcode r \<in> {GET, PUT, DELETE}"
    and "\<not> responsible (chord_node s) (SHA1_hash (string_of_bytes (req_key r)))"
    and "\<not> successor_covers (chord_node s) (SHA1_hash (string_of_bytes (req_key r)))"
  shows "chord_process_request os fd r (s, w) =
    (Inl Deadlock, (s\<lparr>chord_node := (chord_node s)\<lparr>routing_locked := True\<rparr>\<rparr>, w))"
  using handle_chord_data [OF assms(1,3), of os w] handle_data_foreign [OF assms(2,4), of os w] assms(5)
  by (simp add: chord_process_request_def bindP_def)

theorem chord_server_request_deadlocks_witness:
  "chord_process_request tcp_os 5 pair_request
     (pair_server (Some (self_info (pair_node None))), \<lparr>rx = [], tx = [], cuts = []\<rparr>) =
   (Inl Deadlock, ((pair_server (Some (self_info (pair_node None))))
      \<lparr>chord_node := (chord_node (pair_server (Some (self_info (pair_node None)))))\<lparr>routing_locked := True\<rparr>\<rparr>,
      \<lparr>rx = [], tx = [], cuts = []\<rparr>))"
  by (rule chord_server_request_deadlocks [OF pair_node_facts(1-4)])
     (use next_id_ne [of "ni_id other_node"] in
       \<open>simp add: successor_covers_def pair_node_facts(5,7,8), simp add: pair_node_def\<close>)

text \<open>
  A NOTIFY request whose value has a colon but no number behind it makes \<open>std::stoi\<close> throw, and no
  handler between it and the worker thread catches the exception: the connection loop ends with
  the fault, which terminates the process.
\<close>

theorem chord_server_notify_throws:
  assumes "chord_enabled s" "req_opcode r = NOTIFY" "req_value r \<noteq> []"
    and "parse_node (string_of_bytes (req_value r)) = Inl f"
  shows "chord_process_request os fd r (s, w) = (Inl f, (s, w))"
  using assms
  by (simp add: chord_process_request_def handle_chord_operation_def handle_notify_def bindP_def)

theorem chord_server_notify_throws_witness:
  "chord_process_request tcp_os 5 \<lparr>req_opcode = NOTIFY, req_key = [], req_value = [0x3A]\<rparr>
     ((chord_server_new ''h'' 1)\<lparr>chord_enabled := True\<rparr>, \<lparr>rx = [], tx = [], cuts = []\<rparr>) =
   (Inl Invalid_argument, ((chord_server_new ''h'' 1)\<lparr>chord_enabled := True\<rparr>, \<lparr>rx = [], tx = [], cuts = []\<rparr>))"
proof (rule chord_server_notify_throws)
  have "char_of_byte 0x3A = CHR '':''" by (simp add: char_of_byte_def char_of_def bit_0)
  then show "parse_node (string_of_bytes (req_value \<lparr>req_opcode = NOTIFY, req_key = [], req_value = [0x3A]\<rparr>)) =
      Inl Invalid_argument"
    by (simp add: parse_node_def find_colon_def stoi_def strtol_value_def skip_hex_prefix_def)
qed simp_all

text \<open>
  Starting a fresh server either throws and leaves it stopped, without a ring, or ends with the
  listening socket open, the node in a ring of its own and maintenance running; stopping it then
  succeeds and ends all three.
\<close>

theorem chord_server_start_stop:
  "case chord_server_start os (chord_server_new a p, w) of (r, (s, w1)) \<Rightarrow>
     (r = Inl Runtime_error \<and> \<not> running (base s) \<and> \<not> chord_enabled s \<and> \<not> maintaining (chord_node s)) \<or>
     (r = Inr () \<and> running (base s) \<and> chord_alone s \<and> maintaining (chord_node s) \<and>
      (case chord_server_stop os (s, w1) of (r2, (s2, w2)) \<Rightarrow>
         r2 = Inr () \<and> \<not> running (base s2) \<and> \<not> chord_enabled s2 \<and> \<not> maintaining (chord_node s2)))"
proof -
  let ?s = "chord_server_new a p"
  obtain r b w1 where r: "setup_server_socket os (server_new p, w) = (r, (b, w1))" by (metis prod_cases3)
  have b: "\<not> running b" "r = Inl Runtime_error \<or> r = Inr ()"
    using r by (auto simp: setup_server_socket_def server_new_def Let_def split: prod.splits if_splits)
  have n: "chord_create (chord_node_new a p, w1) = (Inr (), (chord_node_new a p, w1))"
    by (simp add: chord_create_def with_lock_def chord_node_new_def Let_def reset_single_def map_replicate_const)
  have al: "alone ((chord_node_new a p)\<lparr>maintaining := True\<rparr>)"
    using alone_new [of a p]
    by (simp add: alone_def chord_wf_def replica_nodes_def cong: option.case_cong)
  show ?thesis
    using b(2)
  proof
    assume e: "r = Inl Runtime_error"
    then have "chord_server_start os (?s, w) = (Inl Runtime_error, (?s\<lparr>base := b\<rparr>, w1))"
      using r by (simp add: chord_server_start_def bindP_def on_base_def server_start_def chord_server_new_def server_new_def)
    then show ?thesis using b(1) by (simp add: chord_server_new_def chord_node_new_def Let_def)
  next
    assume e: "r = Inr ()"
    let ?t = "?s\<lparr>base := b\<lparr>running := True\<rparr>, chord_enabled := True,
        chord_node := (chord_node_new a p)\<lparr>maintaining := True\<rparr>\<rparr>"
    have "\<not> maintaining (chord_node_new a p)" by (simp add: chord_node_new_def Let_def)
    then have "chord_server_start os (?s, w) = (Inr (), (?t, w1))"
      using r e n
      by (simp add: chord_server_start_def bindP_def on_base_def server_start_def chord_server_new_def server_new_def
          create_ring_def on_node_def enable_chord_def server_mod_def start_maintenance_def)
    moreover have "chord_alone ?t" using al by (simp add: chord_alone_def)
    moreover have "case chord_server_stop os (?t, w1) of (r2, (s2, w2)) \<Rightarrow>
        r2 = Inr () \<and> \<not> running (base s2) \<and> \<not> chord_enabled s2 \<and> \<not> maintaining (chord_node s2)"
      by (simp add: chord_server_stop_def bindP_def disable_chord_def on_node_def on_base_def server_mod_def
          stop_maintenance_def server_stop_def Let_def)
    ultimately show ?thesis by simp
  qed
qed

end
