(* ===== verification/Concurrent.thy ===== *)
theory Concurrent
  imports Session Chord_Server
begin

text \<open>
  Connections served at the same time. Each worker of the pool runs \<open>handle_client\<close> of
  \<open>src/src/server.cpp\<close> on a connection of its own; what they share is the server. An iteration of the loop
  touches the shared state in one place, the call of \<open>process_request\<close>, and there in one method of
  the store, which holds the store's mutex from its first to its last statement. So an interleaving of
  workers is a schedule: a list that says which connection makes the next iteration. The model runs
  the iteration \<open>serve_one\<close> of the code for each entry. The result is that every schedule is
  equivalent to a sequential history of the requests.
\<close>

section \<open>Interleaved iterations\<close>

text \<open>The shared state, the socket of each connection, and the connections whose loop has ended.\<close>

type_synonym ('s, 'w) conns = "'s \<times> (nat \<Rightarrow> 'w) \<times> nat set"

definition iterate :: "'w os \<Rightarrow> (int \<Rightarrow> Request \<Rightarrow> ('s \<times> 'w, unit) prog) \<Rightarrow> int \<Rightarrow> nat \<Rightarrow> (('s, 'w) conns, unit) prog" where
  "iterate os process fd i = (\<lambda>(s, ws, ended).
     if i \<in> ended then (Inr (), (s, ws, ended))
     else case serve_one os process fd (s, ws i) of (r, (s', w)) \<Rightarrow>
       (case r of
          Inl f \<Rightarrow> (Inl f, (s', ws(i := w), ended))
        | Inr go \<Rightarrow> (Inr (), (s', ws(i := w), if go then ended else insert i ended))))"

fun interleave ::
  "'w os \<Rightarrow> (int \<Rightarrow> Request \<Rightarrow> ('s \<times> 'w, unit) prog) \<Rightarrow> int \<Rightarrow> nat list \<Rightarrow> (('s, 'w) conns, unit) prog" where
  "interleave os process fd [] = ret ()"
| "interleave os process fd (i # sched) =
     bindP (iterate os process fd i) (\<lambda>_. interleave os process fd sched)"

section \<open>Sequential histories\<close>

text \<open>The requests in the order in which a schedule serves them, with their connections.\<close>

fun history :: "(nat \<Rightarrow> Request list) \<Rightarrow> nat list \<Rightarrow> (nat \<times> Request) list" where
  "history rs [] = []"
| "history rs (i # sched) =
     (case rs i of [] \<Rightarrow> history rs sched | r # rest \<Rightarrow> (i, r) # history (rs(i := rest)) sched)"

text \<open>What connection \<open>i\<close> reads when the history runs sequentially from state \<open>s\<close>.\<close>

fun replies_to :: "('s \<Rightarrow> Request \<Rightarrow> 's) \<Rightarrow> ('s \<Rightarrow> Request \<Rightarrow> bytes) \<Rightarrow> nat \<Rightarrow> 's \<Rightarrow> (nat \<times> Request) list \<Rightarrow> bytes" where
  "replies_to step reply i s [] = []"
| "replies_to step reply i s ((j, r) # h) =
     (if j = i then reply s r else []) @ replies_to step reply i (step s r) h"

definition of_conn :: "nat \<Rightarrow> (nat \<times> Request) list \<Rightarrow> Request list" where
  "of_conn i h = map snd (filter (\<lambda>(j, r). j = i) h)"

lemma of_conn_simps [simp]:
  "of_conn i [] = []" "of_conn i ((j, r) # h) = (if j = i then r # of_conn i h else of_conn i h)"
  by (simp_all add: of_conn_def)

lemma history_program_order:
  "of_conn i (history rs sched) = take (length (filter ((=) i) sched)) (rs i)"
  by (induction sched arbitrary: rs) (auto split: list.split)

lemma replies_to_others: "i \<notin> fst ` set h \<Longrightarrow> replies_to step reply i s h = []"
  by (induction h arbitrary: s) auto

text \<open>A history of one connection is the transcript of the connection loop.\<close>

lemma replies_to_single:
  "\<forall>e \<in> set h. fst e = i \<Longrightarrow> replies_to step reply i s h = transcript step reply s (map snd h)"
  by (induction h arbitrary: s) auto

section \<open>Every schedule is a sequential history\<close>

context request_server
begin

lemma iterate_frame:
  assumes "inv s" "frame_wf r" "good r" "i \<notin> ended" "pending (ws i) = encodeRequest r @ rest"
  shows "\<exists>w. iterate os process fd i (s, ws, ended) = (Inr (), (step s r, ws(i := w), ended)) \<and>
    pending w = rest \<and> sent w = sent (ws i) @ reply s r"
  using serve_one_frame [OF assms(1,3,2,5)] assms(4) by (auto simp: iterate_def)

lemma iterate_idle:
  assumes "i \<notin> ended" "pending (ws i) = []"
  shows "\<exists>w. iterate os process fd i (s, ws, ended) = (Inr (), (s, ws(i := w), insert i ended)) \<and> sent w = sent (ws i)"
  using serve_one_end [of "ws i" s] assms by (auto simp: iterate_def)

lemma interleave_history:
  assumes "inv s" "\<forall>i. \<forall>r \<in> set (rs i). frame_wf r \<and> good r"
    and "\<forall>i. i \<notin> ended \<longrightarrow> pending (ws i) = concat (map encodeRequest (rs i))"
    and "\<forall>i \<in> ended. rs i = []"
  shows "\<exists>ws' ended'. interleave os process fd sched (s, ws, ended) =
      (Inr (), (foldl step s (map snd (history rs sched)), ws', ended')) \<and>
    (\<forall>i. sent (ws' i) = sent (ws i) @ replies_to step reply i s (history rs sched))"
  using assms
proof (induction sched arbitrary: s rs ws ended)
  case Nil
  then show ?case by simp
next
  case (Cons i sched)
  consider "i \<in> ended" | "i \<notin> ended" "rs i = []" | r rest where "i \<notin> ended" "rs i = r # rest"
    using list.exhaust by metis
  then show ?case
  proof cases
    case 1
    then have "iterate os process fd i (s, ws, ended) = (Inr (), (s, ws, ended))" by (simp add: iterate_def)
    then show ?thesis using Cons.IH [OF Cons.prems] 1 Cons.prems(4) by (simp add: bindP_def)
  next
    case 2
    obtain w where w: "iterate os process fd i (s, ws, ended) = (Inr (), (s, ws(i := w), insert i ended))"
      "sent w = sent (ws i)"
      using iterate_idle [of i ended ws s] 2 Cons.prems(3) by auto
    have "\<exists>ws' ended'. interleave os process fd sched (s, ws(i := w), insert i ended) =
        (Inr (), (foldl step s (map snd (history rs sched)), ws', ended')) \<and>
      (\<forall>j. sent (ws' j) = sent ((ws(i := w)) j) @ replies_to step reply j s (history rs sched))"
      by (rule Cons.IH) (use Cons.prems 2 in auto)
    moreover have "sent ((ws(i := w)) j) = sent (ws j)" for j using w(2) by simp
    ultimately show ?thesis using w(1) 2 by (simp add: bindP_def)
  next
    case (3 r rest)
    let ?rs = "rs(i := rest)"
    have r: "frame_wf r" "good r" using Cons.prems(2) [rule_format, of r i] 3(2) by simp_all
    obtain w where w: "iterate os process fd i (s, ws, ended) = (Inr (), (step s r, ws(i := w), ended))"
      "pending w = concat (map encodeRequest rest)" "sent w = sent (ws i) @ reply s r"
      using iterate_frame [of s r i ended ws "concat (map encodeRequest rest)"] r 3 Cons.prems(1,3) by auto
    have "\<exists>ws' ended'. interleave os process fd sched (step s r, ws(i := w), ended) =
        (Inr (), (foldl step (step s r) (map snd (history ?rs sched)), ws', ended')) \<and>
      (\<forall>j. sent (ws' j) = sent ((ws(i := w)) j) @ replies_to step reply j (step s r) (history ?rs sched))"
    proof (rule Cons.IH)
      show "inv (step s r)" using step_inv [OF Cons.prems(1) r(2)] .
      show "\<forall>j. \<forall>q \<in> set (?rs j). frame_wf q \<and> good q" using Cons.prems(2) 3(2) by (metis fun_upd_apply list.set_intros(2))
    qed (use Cons.prems 3 w(2) in auto)
    moreover have "sent ((ws(i := w)) j) = sent (ws j) @ (if i = j then reply s r else [])" for j using w(3) by simp
    ultimately show ?thesis using w(1) 3 by (simp add: bindP_def)
  qed
qed

end

section \<open>The base server\<close>


definition example_requests :: "nat \<Rightarrow> Request list" where
  "example_requests = (\<lambda>_. [])
     (0 := [\<lparr>req_opcode = PUT, req_key = [107], req_value = [9]\<rparr>],
      1 := [\<lparr>req_opcode = GET, req_key = [107], req_value = []\<rparr>, \<lparr>req_opcode = GET, req_key = [107], req_value = []\<rparr>])"


section \<open>The Chord node\<close>

text \<open>Two threads run the same operation; both make their first part before either makes its second.\<close>

definition both_first :: "('s, 'a) prog \<Rightarrow> ('a \<Rightarrow> ('s, 'b) prog) \<Rightarrow> ('s, 'b \<times> 'b) prog" where
  "both_first first second =
     bindP first (\<lambda>a. bindP first (\<lambda>b. bindP (second a) (\<lambda>x. bindP (second b) (\<lambda>y. ret (x, y)))))"

definition one_after_other :: "('s, 'b) prog \<Rightarrow> ('s, 'b \<times> 'b) prog" where
  "one_after_other m = bindP m (\<lambda>x. bindP m (\<lambda>y. ret (x, y)))"

text \<open>
  Deletes of the Chord node are not linearizable: the test whether the key exists and the removal
  are separate accesses to the store. Two threads that delete a stored key at the same time can both
  report success, while one after the other exactly the first does.
\<close>

theorem concurrent_deletes_both_succeed:
  assumes "alone n" "storage_map (local_storage n) key \<noteq> None"
  shows "fst (both_first (remove_lookup os key)
      (\<lambda>key_exists. if \<not> key_exists then ret False else remove_erase os key) (n, w)) = Inr (True, True) \<and>
    fst (one_after_other (remove_key os key) (n, w)) = Inr (True, False)"
proof -
  have l: "\<not> routing_locked n" "replica_nodes n = []" using assms(1) by (simp_all add: alone_def chord_wf_def)
  have first: "remove_lookup os key (n, w) = (Inr True, (n, w))"
    using assms(2) by (auto simp: remove_lookup_def bindP_def storage_get_map)
  have second: "\<exists>m. remove_erase os key (n\<lparr>local_storage := st\<rparr>, w) = (Inr True, (n\<lparr>local_storage := m\<rparr>, w))" for st
    using l by (auto simp: remove_erase_def bindP_def get_replica_nodes_free)
  obtain m where m: "remove_erase os key (n, w) = (Inr True, (n\<lparr>local_storage := m\<rparr>, w))"
    using second [of "local_storage n"] by auto
  obtain m' where m': "remove_erase os key (n\<lparr>local_storage := m\<rparr>, w) = (Inr True, (n\<lparr>local_storage := m'\<rparr>, w))"
    using second [of m] by blast
  have "storage_wf (local_storage n)" using assms(1) by (simp add: alone_def chord_wf_def)
  then have a: "alone (n\<lparr>local_storage := snd (storage_remove (local_storage n) key)\<rparr>)"
    using assms(1) by (simp add: alone_storage)
  show ?thesis
    using first m m' assms(2) alone_remove [OF assms(1), of os key w] alone_remove [OF a, of os key w]
    by (auto simp: both_first_def one_after_other_def bindP_def)
qed

theorem concurrent_deletes_both_succeed_witness:
  "fst (both_first (remove_lookup (net_os []) ''k'')
      (\<lambda>key_exists. if \<not> key_exists then ret False else remove_erase (net_os []) ''k'')
      ((chord_node_new ''127.0.0.1'' 8001)\<lparr>local_storage := storage_put storage_empty ''k'' [1]\<rparr>, example_net)) =
    Inr (True, True)"
proof -
  have "storage_wf (storage_put storage_empty ''k'' [1])" by (simp add: storage_empty_def storage_wf_def storage_put_def)
  then have "alone ((chord_node_new ''127.0.0.1'' 8001)\<lparr>local_storage := storage_put storage_empty ''k'' [1]\<rparr>)"
    by (rule alone_storage [OF alone_new])
  from concurrent_deletes_both_succeed [OF this, of "''k''" "net_os []" example_net] show ?thesis by simp
qed

text \<open>
  Two stores of one key: both write the local store, the second replicates and is acknowledged, then
  something happens in the network, then the first replicates.
\<close>

definition overlapping_stores ::
  "'w os \<Rightarrow> string \<Rightarrow> bytes \<Rightarrow> bytes \<Rightarrow> ('w \<Rightarrow> 'w) \<Rightarrow> ('w, bool \<times> bool) cprog" where
  "overlapping_stores os key v1 v2 env =
     bindP (store_write key v1) (\<lambda>_. bindP (store_write key v2) (\<lambda>_.
     bindP (store_replicate os key v2) (\<lambda>ok2. bindP (modP (\<lambda>(n, w). (n, env w))) (\<lambda>_.
     bindP (store_replicate os key v1) (\<lambda>ok1. ret (ok1, ok2))))))"

definition node_stops :: "NodeInfo \<Rightarrow> net \<Rightarrow> net" where
  "node_stops m w = w\<lparr>nodes := (nodes w)(node_endpoint m := None)\<rparr>"

lemma store_replicate_free:
  assumes "\<not> routing_locked n" "replica_nodes n \<noteq> []"
  shows "store_replicate os key v (n, w) =
    (case replicate_put os key v (replica_nodes n) (replication_manager n) w of (ok, rm, w1) \<Rightarrow>
       if ok then (Inr True, (n\<lparr>replication_manager := rm\<rparr>, w1))
       else (Inr False, (n\<lparr>local_storage := snd (storage_remove (local_storage n) key), replication_manager := rm\<rparr>, w1)))"
  using assms
  by (auto simp: store_replicate_def bindP_def get_replica_nodes_free node_replicate_put_def split: prod.splits)

lemma node_stops_idle: "net_idle w \<Longrightarrow> net_idle (node_stops m w)"
  by (auto simp: net_idle_def node_stops_def)

lemma node_stops_down: "\<not> replica_up (node_stops m w) (Some m)"
  by (simp add: replica_up_def node_stops_def)

text \<open>
  C33. The rollback of a failed store can destroy an acknowledged one. Two stores of a key overlap on its
  owner; the second is replicated and acknowledged while all replica nodes are up; then one of them
  stops and the first store fails. The owner then holds no value for the key.
\<close>

theorem rollback_destroys_acknowledged_store:
  assumes "chord_wf n" "\<not> enable_async_replication (rm_config (replication_manager n))"
    and "net_idle w" "call_small (Put_call key v1)" "call_small (Put_call key v2)"
    and "Some m \<in> set (replica_nodes n)" "\<forall>r \<in> set (replica_nodes n). replica_up w r"
  shows "\<exists>n' w'. overlapping_stores (net_os cs) key v1 v2 (node_stops m) (n, w) = (Inr (False, True), (n', w')) \<and>
    storage_map (local_storage n') key = None"
proof -
  let ?n = "n\<lparr>local_storage := storage_put (storage_put (local_storage n) key v1) key v2\<rparr>"
  let ?rs = "replica_nodes n" and ?rm = "replication_manager n"
  have l: "\<not> routing_locked n" using assms(1) by (simp add: chord_wf_def)
  have ne: "?rs \<noteq> []" using assms(6) by auto
  have all: "take (nat (replication_factor (rm_config ?rm) - 1)) ?rs = ?rs" by (rule take_replica_nodes)
  have f: "1 \<le> replication_factor (rm_config ?rm)"
    using replica_nodes_factor [OF ne] by (simp add: get_replication_factor_def)
  obtain ok rm w1 where r: "replicate_put (net_os cs) key v2 ?rs ?rm w = (ok, rm, w1)" by (metis prod_cases3)
  have rm: "rm_config rm = rm_config ?rm" using replicate_put_config [of "net_os cs" key v2 ?rs ?rm w] r by simp
  have ok: ok using replicate_put_ack [OF assms(3,5,2), of cs ?rs] r all f assms(7) by simp
  have i: "net_idle (node_stops m w1)"
    using net_replicas.replicate_put_keeps [OF assms(3,5), of cs ?rs ?rm] r by (simp add: node_stops_idle)
  obtain ok1 rm1 w2 where r1: "replicate_put (net_os cs) key v1 ?rs rm (node_stops m w1) = (ok1, rm1, w2)"
    by (metis prod_cases3)
  have "\<not> ok1"
    using replicate_put_ack [OF i assms(4), of rm cs ?rs] assms(2,6) r1 rm all node_stops_down [of m w1] by auto
  then show ?thesis
    using store_replicate_free [of ?n "net_os cs" key v2 w] r ok l ne
      store_replicate_free [of "?n\<lparr>replication_manager := rm\<rparr>" "net_os cs" key v1 "node_stops m w1"] r1 rm
    by (simp add: overlapping_stores_def store_write_def node_mod_def bindP_def)
qed

theorem rollback_destroys_acknowledged_store_witness:
  "\<exists>n' w'. overlapping_stores (net_os [1]) ''k'' [1] [2] (node_stops (example_peer 8002)) (example_node 8002, example_net) =
     (Inr (False, True), (n', w')) \<and> storage_map (local_storage n') ''k'' = None"
  by (rule rollback_destroys_acknowledged_store [OF example_node(1) _ example_idle])
     (simp_all add: example_node example_manager replica_up_def node_endpoint_def example_peer_def example_net_def)

end
