(* ===== verification/Durability.thy ===== *)
theory Durability
  imports Concurrent
begin

text \<open>
  Reads and deletes of the Chord node when nodes fail. The owner of a key reads its own store first and
  then, in order, its replicas (\<open>retrieve_key\<close> of \<open>src/src/chord.cpp\<close>, \<open>get_from_replicas\<close> of \<open>src/src/replication.cpp\<close>); a delete goes
  to the owner's store and to the replicas that can be reached. The replicas are base servers of the
  network of theory \<open>Session\<close>. An acknowledged put survives the loss of all copies but one, and so does a
  deleted value on a replica that the delete did not reach.
\<close>

section \<open>Reads from replicas\<close>

lemma responsible_update [simp]:
  "responsible (n\<lparr>local_storage := st\<rparr>) h = responsible n h" "responsible (n\<lparr>replication_manager := rm\<rparr>) h = responsible n h"
  by (simp_all add: responsible_def cong: option.case_cong)

lemma net_get_up:
  assumes "net_idle w" "call_small (Get_call key)" "nodes w (node_endpoint m) = Some s"
  shows "\<exists>c w1 w2 w3. client_connect (net_os cs) (client_new (ni_address m) (ni_port m)) w = (True, c, w1) \<and>
    client_get (net_os cs) c key [] w1 =
      (Inr (case storage_map (storage s) key of Some v \<Rightarrow> (True, v) | None \<Rightarrow> (False, [])), c, w2) \<and>
    snd (client_disconnect (net_os cs) c w2) = w3"
proof -
  have e: "nodes w (ni_address m, ni_port m) = Some s" using assms(3) by (simp add: node_endpoint_def)
  show ?thesis using net_single_call [OF e net_idle_small [OF assms(1,3)] assms(2), of cs] by auto
qed

text \<open>The first replica that is up decides; if all that are up hold the value, it is found.\<close>

lemma get_from_replicas_up:
  assumes "net_idle w" "call_small (Get_call key)" "\<exists>r \<in> set rs. replica_up w r"
    and "\<forall>m s. Some m \<in> set rs \<longrightarrow> nodes w (node_endpoint m) = Some s \<longrightarrow> storage_map (storage s) key = Some v"
  shows "\<exists>w'. get_from_replicas (net_os cs) key [] rs w = ((True, v), w')"
  using assms(3,4)
proof (induction rs)
  case Nil
  then show ?case by simp
next
  case (Cons r rs)
  show ?case
  proof (cases "replica_up w r")
    case True
    then obtain m s where m: "r = Some m" "ni_port m \<noteq> 0" "nodes w (node_endpoint m) = Some s"
      by (auto simp: replica_up_def split: option.splits)
    have "storage_map (storage s) key = Some v" using Cons.prems(2) m(1,3) by auto
    then show ?thesis using net_get_up [OF assms(1,2) m(3), of cs] m(1,2) by auto
  next
    case False
    have IH: "\<exists>w'. get_from_replicas (net_os cs) key [] rs w = ((True, v), w')"
      using Cons.IH Cons.prems False by auto
    show ?thesis
    proof (cases "\<exists>m. r = Some m \<and> ni_port m \<noteq> 0")
      case True
      then obtain m where m: "r = Some m" "ni_port m \<noteq> 0" by blast
      then have "nodes w (ni_address m, ni_port m) = None" "conn w = None"
        using False assms(1) by (auto simp: replica_up_def node_endpoint_def net_idle_def)
      then obtain c where "client_connect (net_os cs) (client_new (ni_address m) (ni_port m)) w = (False, c, w)"
        "\<not> connected c"
        using net_connect_refused by blast
      then show ?thesis using IH m by (simp add: client_disconnect_def)
    next
      case False
      then show ?thesis using IH by (cases r) auto
    qed
  qed
qed

section \<open>Loss of copies\<close>


lemma store_key_idle:
  assumes "chord_wf n" "responsible n (SHA1_hash key)" "net_idle w" "call_small (Put_call key v)"
    and "store_key (net_os cs) key v (n, w) = (r, (n', w'))"
  shows "net_idle w'"
proof -
  have "\<not> routing_locked n" using assms(1) by (simp add: chord_wf_def)
  then show ?thesis
    using assms(3,5) store_key_owner [OF _ assms(2), of "net_os cs" v w]
      net_replicas.replicate_put_keeps [OF assms(3,4), of cs "replica_nodes n" "replication_manager n"]
    by (auto simp: Let_def split: if_splits prod.splits)
qed


section \<open>Deletes that do not reach a replica\<close>

lemma net_delete_down:
  assumes "net_idle w" "nodes w (node_endpoint m) = None"
  shows "send_replication_request (net_os cs) m ''DELETE'' k v w = (False, w)"
proof -
  have "conn w = None" "nodes w (ni_address m, ni_port m) = None" using assms by (simp_all add: net_idle_def node_endpoint_def)
  then obtain c where "client_connect (net_os cs) (client_new (ni_address m) (ni_port m)) w = (False, c, w)"
    "\<not> connected c"
    using net_connect_refused by blast
  then show ?thesis by (simp add: send_replication_request_def client_disconnect_def)
qed

lemma replicate_delete_down:
  assumes "net_idle w" "\<forall>r \<in> set rs. \<not> replica_up w r"
  shows "replicate_loop (net_os cs) ''DELETE'' key v rs i w = (i, w)"
  using assms(2)
proof (induction rs)
  case (Cons r rs)
  then show ?case
    using net_delete_down [OF assms(1), of _ cs key v] by (cases r) (auto simp: replica_up_def)
qed simp

text \<open>
  C29. A deleted key can come back: when the owner of a key cannot reach its replicas, \<open>remove_key\<close> removes the key from the
  owner's store and reports success. As soon as a replica can be reached again, a read on the owner
  returns the deleted value.
\<close>

theorem unreached_delete_returns:
  assumes "chord_wf n" "responsible n (SHA1_hash key)" "call_small (Get_call key)"
    and "\<not> enable_async_replication (rm_config (replication_manager n))"
    and "storage_map (local_storage n) key \<noteq> None" "net_idle w" "\<forall>r \<in> set (replica_nodes n). \<not> replica_up w r"
    and "net_idle w''" "\<exists>r \<in> set (replica_nodes n). replica_up w'' r"
    and "\<forall>m s. Some m \<in> set (replica_nodes n) \<longrightarrow> nodes w'' (node_endpoint m) = Some s \<longrightarrow> storage_map (storage s) key = Some v"
  shows "\<exists>n' w'. remove_key (net_os cs) key (n, w) = (Inr True, (n', w')) \<and> storage_map (local_storage n') key = None \<and>
    fst (retrieve_key (net_os cs) key [] (n', w'')) = Inr (True, v)"
proof -
  let ?rs = "replica_nodes n" and ?rm = "replication_manager n" and ?st = "snd (storage_remove (local_storage n) key)"
  let ?n = "n\<lparr>local_storage := ?st, replication_manager := erase_timestamp key ?rm\<rparr>"
  have l: "\<not> routing_locked n" using assms(1) by (simp add: chord_wf_def)
  have ne: "?rs \<noteq> []" using assms(9) by auto
  have "\<forall>r \<in> set (take i ?rs). \<not> replica_up w r" for i using assms(7) set_take_subset by fastforce
  then have "\<exists>ok. replicate_delete (net_os cs) key ?rs ?rm w = (ok, erase_timestamp key ?rm, w)"
    using replicate_delete_down [OF assms(6)] assms(4) by (simp add: replicate_delete_def Let_def)
  then have r: "remove_key (net_os cs) key (n, w) = (Inr True, (?n, w))"
    using remove_key_owner_local [OF l assms(2,5), of "net_os cs" w] ne by auto
  have rs: "replica_nodes ?n = ?rs" by (simp add: erase_timestamp_def)
  obtain w3 where "get_from_replicas (net_os cs) key [] ?rs w'' = ((True, v), w3)"
    using get_from_replicas_up [OF assms(8,3,9,10)] by blast
  moreover have "\<not> routing_locked ?n" "responsible ?n (SHA1_hash key)" "storage_map (local_storage ?n) key = None"
    using l assms(2) by simp_all
  ultimately show ?thesis
    using retrieve_key_owner [of ?n key "net_os cs" "[]" w''] rs ne r by auto
qed

theorem unreached_delete_returns_witness:
  "\<exists>n' w'. remove_key (net_os [1]) ''k'' ((example_node 8002)\<lparr>local_storage := storage_put storage_empty ''k'' [9]\<rparr>,
       node_stops (example_peer 8002) example_net) = (Inr True, (n', w')) \<and> storage_map (local_storage n') ''k'' = None \<and>
    fst (retrieve_key (net_os [1]) ''k'' [] (n', example_net
      \<lparr>nodes := [(''127.0.0.1'', 8002) \<mapsto> (server_new 8002)\<lparr>storage := storage_put storage_empty ''k'' [9]\<rparr>]\<rparr>)) = Inr (True, [9])"
proof -
  let ?n = "(example_node 8002)\<lparr>local_storage := storage_put storage_empty ''k'' [9]\<rparr>"
  let ?w = "example_net\<lparr>nodes := [(''127.0.0.1'', 8002) \<mapsto> (server_new 8002)\<lparr>storage := storage_put storage_empty ''k'' [9]\<rparr>]\<rparr>"
  have n: "chord_wf ?n" "responsible ?n (SHA1_hash ''k'')" "replica_nodes ?n = [Some (example_peer 8002)]"
    using example_node(1,2) [of 8002] example_node(4) [of 8002] by (simp_all add: chord_wf_def)
  have w: "net_idle ?w" by (simp add: net_idle_def example_net_def store_values_small_def)
  show ?thesis
    by (rule unreached_delete_returns [OF n(1,2) _ _ _ node_stops_idle [OF example_idle] _ w])
      (simp_all add: n(3) node_stops_def replica_up_def node_endpoint_def example_peer_def example_node example_manager)
qed

end
