(* ===== verification/ThreadPool.thy ===== *)
theory ThreadPool
  imports Prelude
begin

text \<open>
  The thread pool of \<open>src/include/server.h\<close> and \<open>src/src/server.cpp\<close> as a labelled step relation.
  The steps are the points where another thread can be observed: acquiring \<open>queue_mutex\<close> and
  testing the predicate of \<open>condition.wait\<close>, the atomic unlock-and-block of the wait, the two
  notifications, the store to \<open>stop\<close>. A worker whose predicate was false holds the mutex until it
  blocks; nothing else keeps the mutex over a step, so the mutex is free iff no worker is
  \<open>Checked\<close>. \<open>enqueue\<close> notifies after it has released the mutex, and the destructor
  stores and notifies without the mutex.
\<close>

section \<open>State and steps\<close>

datatype 'a wstate =
    Loop_head      \<comment> \<open>about to test \<open>while (!stop.load())\<close>\<close>
  | Acquiring      \<comment> \<open>about to lock \<open>queue_mutex\<close> and test the wait predicate\<close>
  | Checked        \<comment> \<open>holds the mutex, predicate was false, about to block\<close>
  | Blocked        \<comment> \<open>blocked in \<open>condition.wait\<close>, mutex released\<close>
  | Running 'a     \<comment> \<open>executing a task\<close>
  | Exited

record 'a pool =
  tasks :: "'a list"
  stop :: bool
  workers :: "'a wstate list"
  notifies :: nat        \<comment> \<open>\<open>enqueue\<close> calls that have pushed and not yet called \<open>notify_one\<close>\<close>
  stop_notify :: bool    \<comment> \<open>the destructor has stored \<open>stop\<close> and not yet called \<open>notify_all\<close>\<close>

definition pool_new :: "nat \<Rightarrow> 'a pool" where
  "pool_new threads =
     \<lparr>tasks = [], stop = False, workers = replicate threads Loop_head, notifies = 0, stop_notify = False\<rparr>"

definition mutex_free :: "'a pool \<Rightarrow> bool" where
  "mutex_free p \<longleftrightarrow> Checked \<notin> set (workers p)"

definition wake :: "'a wstate \<Rightarrow> 'a wstate" where
  "wake w = (case w of Blocked \<Rightarrow> Acquiring | _ \<Rightarrow> w)"

datatype 'a event =
    Accept 'a      \<comment> \<open>\<open>enqueue\<close> pushes a task\<close>
  | Refuse 'a      \<comment> \<open>\<open>enqueue\<close> finds \<open>stop\<close> set and returns\<close>
  | Start nat 'a   \<comment> \<open>a worker takes the front task\<close>
  | Worker nat     \<comment> \<open>any other step of a worker\<close>
  | Notify_one
  | Store_stop
  | Notify_all
  | Spurious nat   \<comment> \<open>a wake-up of \<open>condition.wait\<close> without a notification\<close>

inductive pool_step :: "'a pool \<Rightarrow> 'a event \<Rightarrow> 'a pool \<Rightarrow> bool" where
  enqueue: "mutex_free p \<Longrightarrow> \<not> stop p \<Longrightarrow>
    pool_step p (Accept t) (p\<lparr>tasks := tasks p @ [t], notifies := Suc (notifies p)\<rparr>)"
| enqueue_stopped: "mutex_free p \<Longrightarrow> stop p \<Longrightarrow> pool_step p (Refuse t) p"
| notify_one: "notifies p = Suc n \<Longrightarrow> i < length (workers p) \<Longrightarrow> workers p ! i = Blocked \<Longrightarrow>
    pool_step p Notify_one (p\<lparr>notifies := n, workers := (workers p)[i := Acquiring]\<rparr>)"
| notify_none: "notifies p = Suc n \<Longrightarrow> Blocked \<notin> set (workers p) \<Longrightarrow>
    pool_step p Notify_one (p\<lparr>notifies := n\<rparr>)"
| head_go: "i < length (workers p) \<Longrightarrow> workers p ! i = Loop_head \<Longrightarrow> \<not> stop p \<Longrightarrow>
    pool_step p (Worker i) (p\<lparr>workers := (workers p)[i := Acquiring]\<rparr>)"
| head_exit: "i < length (workers p) \<Longrightarrow> workers p ! i = Loop_head \<Longrightarrow> stop p \<Longrightarrow>
    pool_step p (Worker i) (p\<lparr>workers := (workers p)[i := Exited]\<rparr>)"
| take_task: "i < length (workers p) \<Longrightarrow> workers p ! i = Acquiring \<Longrightarrow> mutex_free p \<Longrightarrow> tasks p = t # ts \<Longrightarrow>
    pool_step p (Start i t) (p\<lparr>tasks := ts, workers := (workers p)[i := Running t]\<rparr>)"
| return_empty: "i < length (workers p) \<Longrightarrow> workers p ! i = Acquiring \<Longrightarrow> mutex_free p \<Longrightarrow> tasks p = [] \<Longrightarrow> stop p \<Longrightarrow>
    pool_step p (Worker i) (p\<lparr>workers := (workers p)[i := Exited]\<rparr>)"
| check: "i < length (workers p) \<Longrightarrow> workers p ! i = Acquiring \<Longrightarrow> mutex_free p \<Longrightarrow> tasks p = [] \<Longrightarrow> \<not> stop p \<Longrightarrow>
    pool_step p (Worker i) (p\<lparr>workers := (workers p)[i := Checked]\<rparr>)"
| block: "i < length (workers p) \<Longrightarrow> workers p ! i = Checked \<Longrightarrow>
    pool_step p (Worker i) (p\<lparr>workers := (workers p)[i := Blocked]\<rparr>)"
| finish: "i < length (workers p) \<Longrightarrow> workers p ! i = Running t \<Longrightarrow>
    pool_step p (Worker i) (p\<lparr>workers := (workers p)[i := Loop_head]\<rparr>)"
| store_stop: "\<not> stop p \<Longrightarrow> pool_step p Store_stop (p\<lparr>stop := True, stop_notify := True\<rparr>)"
| notify_all: "stop_notify p \<Longrightarrow>
    pool_step p Notify_all (p\<lparr>workers := map wake (workers p), stop_notify := False\<rparr>)"
| spurious: "i < length (workers p) \<Longrightarrow> workers p ! i = Blocked \<Longrightarrow>
    pool_step p (Spurious i) (p\<lparr>workers := (workers p)[i := Acquiring]\<rparr>)"

inductive_cases pool_stepE: "pool_step p e q"

abbreviation pool_run :: "'a pool \<Rightarrow> 'a event list \<Rightarrow> 'a pool \<Rightarrow> bool" where
  "pool_run \<equiv> trace pool_step"

definition accepted :: "'a event list \<Rightarrow> 'a list" where
  "accepted es = concat (map (\<lambda>e. case e of Accept t \<Rightarrow> [t] | _ \<Rightarrow> []) es)"

definition started :: "'a event list \<Rightarrow> 'a list" where
  "started es = concat (map (\<lambda>e. case e of Start i t \<Rightarrow> [t] | _ \<Rightarrow> []) es)"

lemma accepted_append [simp]: "accepted (es @ fs) = accepted es @ accepted fs"
  by (simp add: accepted_def)

lemma started_append [simp]: "started (es @ fs) = started es @ started fs"
  by (simp add: started_def)

section \<open>Every accepted task starts at most once and in order\<close>

lemma pool_step_tasks:
  "pool_step p e q \<Longrightarrow> tasks p @ accepted [e] = started [e] @ tasks q"
  by (erule pool_stepE) (auto simp: accepted_def started_def)

lemma pool_run_tasks:
  "pool_run p es q \<Longrightarrow> tasks p @ accepted es = started es @ tasks q"
proof (induction rule: trace.induct)
  case (trace_nil p)
  then show ?case by (simp add: accepted_def started_def)
next
  case (trace_snoc p es q e r)
  have "tasks p @ accepted (es @ [e]) = (tasks p @ accepted es) @ accepted [e]" by simp
  also have "\<dots> = started es @ (tasks q @ accepted [e])" using trace_snoc.IH by simp
  also have "\<dots> = started (es @ [e]) @ tasks r" using pool_step_tasks [OF trace_snoc.hyps(2)] by simp
  finally show ?case .
qed

section \<open>No task waits for a wake-up that was lost\<close>

definition awake :: "'a wstate \<Rightarrow> bool" where
  "awake w \<longleftrightarrow> w \<noteq> Checked \<and> w \<noteq> Blocked \<and> w \<noteq> Exited"

lemma awake_simps [simp]:
  "awake Loop_head" "awake Acquiring" "awake (Running t)" "\<not> awake Checked" "\<not> awake Blocked" "\<not> awake Exited"
  by (simp_all add: awake_def)

definition pool_inv :: "'a pool \<Rightarrow> bool" where
  "pool_inv p \<longleftrightarrow>
     (Checked \<in> set (workers p) \<longrightarrow> tasks p = []) \<and>
     (\<not> stop p \<longrightarrow> Exited \<notin> set (workers p)) \<and>
     (\<not> stop p \<longrightarrow> tasks p \<noteq> [] \<longrightarrow> notifies p = 0 \<longrightarrow> workers p = [] \<or> (\<exists>w \<in> set (workers p). awake w))"

lemma pool_inv_new: "pool_inv (pool_new n)"
  by (auto simp: pool_inv_def pool_new_def)

lemma ex_update: "i < length xs \<Longrightarrow> P v \<Longrightarrow> \<exists>w \<in> set (xs[i := v]). P w"
  using set_update_memI by fastforce

lemma in_set_update: "x \<in> set (xs[i := v]) \<Longrightarrow> x = v \<or> x \<in> set xs"
  using set_update_subset_insert by fastforce

lemma pool_inv_notify_none:
  assumes "pool_inv p" "notifies p = Suc n" "Blocked \<notin> set (workers p)"
  shows "pool_inv (p\<lparr>notifies := n\<rparr>)"
proof -
  have "\<not> stop p \<Longrightarrow> tasks p \<noteq> [] \<Longrightarrow> workers p \<noteq> [] \<Longrightarrow> \<exists>w \<in> set (workers p). awake w"
    using assms by (cases "workers p") (auto simp: pool_inv_def awake_def)
  then show ?thesis using assms by (auto simp: pool_inv_def)
qed

lemma pool_inv_worker:
  assumes "pool_inv p" "i < length (workers p)"
    and "v = Checked \<Longrightarrow> tasks q = []" "v = Exited \<Longrightarrow> stop p"
    and "awake v \<or> tasks q = [] \<or> stop p"
    and "workers q = (workers p)[i := v]" "tasks p = [] \<Longrightarrow> tasks q = []" "stop q = stop p"
  shows "pool_inv q"
proof -
  have "Checked \<in> set (workers q) \<Longrightarrow> tasks q = []"
    using assms(1,3,6,7) in_set_update [of Checked "workers p" i v] by (auto simp: pool_inv_def)
  moreover have "\<not> stop q \<Longrightarrow> Exited \<notin> set (workers q)"
    using assms(1,4,6,8) in_set_update [of Exited "workers p" i v] by (auto simp: pool_inv_def)
  moreover have "\<not> stop q \<Longrightarrow> tasks q \<noteq> [] \<Longrightarrow> \<exists>w \<in> set (workers q). awake w"
  proof -
    assume "\<not> stop q" "tasks q \<noteq> []"
    then have "awake v" using assms(5,8) by simp
    then show ?thesis unfolding assms(6) by (rule ex_update [OF assms(2)])
  qed
  ultimately show ?thesis by (simp add: pool_inv_def)
qed

lemma pool_inv_step: "pool_step p e q \<Longrightarrow> pool_inv p \<Longrightarrow> pool_inv q"
proof (induction rule: pool_step.induct)
  case (block i p)
  have "Checked \<in> set (workers p)"
    using nth_mem [OF block.hyps(1)] block.hyps(2) by simp
  then have "tasks p = []" using block.prems by (simp add: pool_inv_def)
  then show ?case by - (rule pool_inv_worker [OF block.prems block.hyps(1)], simp_all)
next
  case (notify_all p)
  have "Checked \<in> set (map wake (workers p)) \<longleftrightarrow> Checked \<in> set (workers p)"
    by (force simp: wake_def split: wstate.splits)
  moreover have "Exited \<in> set (map wake (workers p)) \<longleftrightarrow> Exited \<in> set (workers p)"
    by (force simp: wake_def split: wstate.splits)
  moreover have "awake w \<Longrightarrow> awake (wake w)" for w :: "'a wstate"
    by (auto simp: wake_def split: wstate.splits)
  ultimately show ?case using notify_all by (fastforce simp: pool_inv_def)
next
  case (enqueue p t)
  then show ?case by (simp add: pool_inv_def mutex_free_def)
next
  case (notify_one p n i)
  then show ?case by - (rule pool_inv_worker [of p i Acquiring], auto)
next
  case (notify_none p n)
  then show ?case by (simp add: pool_inv_notify_none)
next
  case (head_go i p)
  then show ?case by - (rule pool_inv_worker [of p i Acquiring], auto)
next
  case (head_exit i p)
  then show ?case by - (rule pool_inv_worker [of p i Exited], auto)
next
  case (take_task i p t ts)
  then show ?case by - (rule pool_inv_worker [of p i "Running t"], auto)
next
  case (return_empty i p)
  then show ?case by - (rule pool_inv_worker [of p i Exited], auto)
next
  case (check i p)
  then show ?case by - (rule pool_inv_worker [of p i Checked], auto)
next
  case (finish i p t)
  then show ?case by - (rule pool_inv_worker [of p i Loop_head], auto)
next
  case (spurious i p)
  then show ?case by - (rule pool_inv_worker [of p i Acquiring], auto)
qed (auto simp: pool_inv_def)

lemma pool_inv_run: "pool_run p es q \<Longrightarrow> pool_inv p \<Longrightarrow> pool_inv q"
  by (erule trace_invariant) (auto intro: pool_inv_step)

section \<open>After \<open>stop\<close>\<close>

fun worker_rank :: "'a wstate \<Rightarrow> nat" where
  "worker_rank Checked = 5"
| "worker_rank Blocked = 4"
| "worker_rank Acquiring = 3"
| "worker_rank (Running t) = 2"
| "worker_rank Loop_head = 1"
| "worker_rank Exited = 0"

definition pool_rank :: "'a pool \<Rightarrow> nat" where
  "pool_rank p = sum_list (map worker_rank (workers p)) + notifies p + (if stop_notify p then 1 else 0)"

lemma rank_update_less:
  assumes "i < length xs" "worker_rank v < worker_rank (xs ! i)"
  shows "sum_list (map worker_rank (xs[i := v])) < sum_list (map worker_rank xs)"
proof -
  have "xs = take i xs @ xs ! i # drop (Suc i) xs" using assms(1) by (rule id_take_nth_drop)
  then have "sum_list (map worker_rank xs) = sum_list (map worker_rank (take i xs)) +
      (worker_rank (xs ! i) + sum_list (map worker_rank (drop (Suc i) xs)))"
    by (metis list.simps(9) map_append sum_list.Cons sum_list.append)
  then show ?thesis using assms by (simp add: upd_conv_take_nth_drop)
qed

lemma rank_wake: "sum_list (map (worker_rank \<circ> wake) xs) \<le> sum_list (map worker_rank xs)"
  by (rule sum_list_mono) (auto simp: wake_def split: wstate.splits)

lemma pool_step_rank:
  assumes "pool_step p e q" "stop p"
  shows "stop q \<and> (q = p \<and> (\<exists>t. e = Refuse t) \<or> pool_rank q < pool_rank p)"
  using assms
proof (induction rule: pool_step.induct)
  case (notify_all p)
  then show ?case using rank_wake [of "workers p"] by (simp add: pool_rank_def)
next
  case (notify_one p n i)
  then show ?case using rank_update_less [of i "workers p" Acquiring] by (simp add: pool_rank_def)
next
  case (take_task i p t ts)
  then show ?case using rank_update_less [of i "workers p" "Running t"] by (simp add: pool_rank_def)
next
  case (block i p)
  then show ?case using rank_update_less [of i "workers p" Blocked] by (simp add: pool_rank_def)
next
  case (finish i p t)
  then show ?case using rank_update_less [of i "workers p" Loop_head] by (simp add: pool_rank_def)
next
  case (spurious i p)
  then show ?case using rank_update_less [of i "workers p" Acquiring] by (simp add: pool_rank_def)
next
  case (head_exit i p)
  then show ?case using rank_update_less [of i "workers p" Exited] by (simp add: pool_rank_def)
next
  case (return_empty i p)
  then show ?case using rank_update_less [of i "workers p" Exited] by (simp add: pool_rank_def)
qed (auto simp: pool_rank_def)

text \<open>A worker that can still take a task when \<open>stop\<close> is set.\<close>

fun can_take :: "'a wstate \<Rightarrow> nat" where
  "can_take Checked = 1"
| "can_take Blocked = 1"
| "can_take Acquiring = 1"
| "can_take _ = 0"

definition takers :: "'a pool \<Rightarrow> nat" where
  "takers p = sum_list (map can_take (workers p))"

lemma takers_update:
  assumes "i < length xs"
  shows "sum_list (map can_take (xs[i := v])) + can_take (xs ! i) = sum_list (map can_take xs) + can_take v"
proof -
  have "xs = take i xs @ xs ! i # drop (Suc i) xs" using assms(1) by (rule id_take_nth_drop)
  then have "sum_list (map can_take xs) = sum_list (map can_take (take i xs)) +
      (can_take (xs ! i) + sum_list (map can_take (drop (Suc i) xs)))"
    by (metis list.simps(9) map_append sum_list.Cons sum_list.append)
  then show ?thesis using assms by (simp add: upd_conv_take_nth_drop)
qed

lemma takers_le: "takers p \<le> length (workers p)"
proof -
  have "can_take w \<le> 1" for w :: "'a wstate" by (cases w) simp_all
  then have "sum_list (map can_take (workers p)) \<le> sum_list (map (\<lambda>w. 1) (workers p))"
    by (rule sum_list_mono)
  then show ?thesis by (simp add: takers_def sum_list_triv)
qed

lemma takers_wake: "map (can_take \<circ> wake) xs = map can_take xs"
  by (auto simp: wake_def split: wstate.splits)

lemma pool_step_takers:
  assumes "pool_step p e q" "stop p"
  shows "length (started [e]) + takers q \<le> takers p"
  using assms
proof (induction rule: pool_step.induct)
  case (notify_one p n i)
  then show ?case using takers_update [of i "workers p" Acquiring] by (simp add: takers_def started_def)
next
  case (head_exit i p)
  then show ?case using takers_update [of i "workers p" Exited] by (simp add: takers_def started_def)
next
  case (take_task i p t ts)
  then show ?case using takers_update [of i "workers p" "Running t"] by (simp add: takers_def started_def)
next
  case (return_empty i p)
  then show ?case using takers_update [of i "workers p" Exited] by (simp add: takers_def started_def)
next
  case (block i p)
  then show ?case using takers_update [of i "workers p" Blocked] by (simp add: takers_def started_def)
next
  case (finish i p t)
  then show ?case using takers_update [of i "workers p" Loop_head] by (simp add: takers_def started_def)
next
  case (spurious i p)
  then show ?case using takers_update [of i "workers p" Acquiring] by (simp add: takers_def started_def)
qed (simp_all add: takers_def started_def takers_wake)

definition effective :: "'a event list \<Rightarrow> nat" where
  "effective es = length (filter (\<lambda>e. case e of Refuse t \<Rightarrow> False | _ \<Rightarrow> True) es)"

lemma pool_run_stopped:
  assumes "pool_run p es q" "stop p"
  shows "stop q \<and> effective es + pool_rank q \<le> pool_rank p \<and> length (started es) + takers q \<le> takers p"
  using assms
proof (induction rule: trace.induct)
  case (trace_nil p)
  then show ?case by (simp add: effective_def started_def)
next
  case (trace_snoc p es q e r)
  have q: "stop q" "effective es + pool_rank q \<le> pool_rank p" "length (started es) + takers q \<le> takers p"
    using trace_snoc by simp_all
  have "effective (es @ [e]) + pool_rank r \<le> effective es + pool_rank q"
    using pool_step_rank [OF trace_snoc.hyps(2) q(1)] by (auto simp: effective_def split: event.splits)
  moreover have "length (started (es @ [e])) + takers r \<le> length (started es) + takers q"
    using pool_step_takers [OF trace_snoc.hyps(2) q(1)] by simp
  ultimately show ?case using pool_step_rank [OF trace_snoc.hyps(2) q(1)] q by auto
qed

section \<open>Properties\<close>

text \<open>
  C12. In every execution of a pool, the accepted tasks are exactly the started tasks followed by
  the queued tasks, in the order of acceptance: every task starts at most once, in FIFO order, and
  none disappears from the queue without being started.
\<close>

theorem pool_fifo_exactly_once:
  assumes "pool_run (pool_new n) es q"
  shows "accepted es = started es @ tasks q"
  using pool_run_tasks [OF assms] by (simp add: pool_new_def)

lemma example_run: "pool_run (pool_new 1) [Accept (7 :: nat), Worker 0, Start 0 7]
    \<lparr>tasks = [], stop = False, workers = [Running 7], notifies = 1, stop_notify = False\<rparr>"
proof -
  let ?s = "\<lambda>ts w. \<lparr>tasks = ts :: nat list, stop = False, workers = [w], notifies = 1, stop_notify = False\<rparr>"
  have "pool_step (pool_new 1) (Accept 7) (?s [7] Loop_head)"
    using enqueue [of "pool_new 1" 7] by (simp add: pool_new_def mutex_free_def)
  moreover have "pool_step (?s [7] Loop_head) (Worker 0) (?s [7] Acquiring)"
    using head_go [of 0 "?s [7] Loop_head"] by simp
  moreover have "pool_step (?s [7] Acquiring) (Start 0 7) (?s [] (Running 7))"
    using take_task [of 0 "?s [7] Acquiring" 7 "[]"] by (simp add: mutex_free_def)
  ultimately show ?thesis
    using trace_steps [of pool_step "pool_new 1" "[(Accept 7, ?s [7] Loop_head), (Worker 0, ?s [7] Acquiring),
      (Start 0 7, ?s [] (Running 7))]"] by simp
qed

theorem pool_fifo_exactly_once_witness:
  "accepted [Accept (7 :: nat), Worker 0, Start 0 7] = [7] @ []"
  using pool_fifo_exactly_once [OF example_run] by (simp add: started_def)

lemma awake_step:
  assumes "pool_inv p" "\<not> stop p" "tasks p \<noteq> []" "w \<in> set (workers p)" "awake w"
  shows "\<exists>i t r. pool_step p (Worker i) r \<or> pool_step p (Start i t) r"
proof -
  obtain i where i: "i < length (workers p)" "workers p ! i = w"
    using assms(4) by (auto simp: in_set_conv_nth)
  obtain t ts where ts: "tasks p = t # ts" using assms(3) by (cases "tasks p") auto
  have "mutex_free p" using assms(1) ts by (auto simp: pool_inv_def mutex_free_def)
  then show ?thesis
  proof (cases w)
    case Loop_head
    then show ?thesis using head_go [of i p] i assms(2) by blast
  next
    case Acquiring
    then show ?thesis using take_task [of i p t ts] i ts \<open>mutex_free p\<close> by blast
  next
    case (Running t')
    then show ?thesis using finish [of i p t'] i by blast
  qed (use assms(5) in simp_all)
qed

text \<open>
  C18. A queued task is never stranded by a lost notification: in every reachable state of a pool
  with at least one worker in which \<open>stop\<close> is not set and the queue is not empty, some worker or a
  pending \<open>notify_one\<close> can make a step, without a new task and without a spurious wake-up.
\<close>

theorem pool_no_lost_task:
  assumes "pool_run (pool_new (Suc n)) es q" "\<not> stop q" "tasks q \<noteq> []"
  shows "\<exists>i t r. pool_step q Notify_one r \<or> pool_step q (Worker i) r \<or> pool_step q (Start i t) r"
proof -
  have inv: "pool_inv q" using pool_inv_run [OF assms(1) pool_inv_new] .
  have "length (workers q) = Suc n"
    using assms(1) by (induction "pool_new (Suc n) :: 'a pool" es q rule: trace.induct)
      (auto simp: pool_new_def elim!: pool_stepE)
  then have "notifies q = 0 \<Longrightarrow> \<exists>w \<in> set (workers q). awake w"
    using inv assms(2,3) by (auto simp: pool_inv_def)
  then show ?thesis
  proof (cases "notifies q")
    case 0
    then show ?thesis using awake_step [OF inv assms(2,3)] \<open>notifies q = 0 \<Longrightarrow> _\<close> by blast
  next
    case (Suc m)
    then show ?thesis
      using notify_one [of q m] notify_none [of q m] by (metis in_set_conv_nth)
  qed
qed

theorem pool_no_lost_task_witness:
  "\<exists>i t r. pool_step \<lparr>tasks = [7 :: nat], stop = False, workers = [Loop_head], notifies = 1, stop_notify = False\<rparr> Notify_one r
    \<or> pool_step \<lparr>tasks = [7], stop = False, workers = [Loop_head], notifies = 1, stop_notify = False\<rparr> (Worker i) r
    \<or> pool_step \<lparr>tasks = [7], stop = False, workers = [Loop_head], notifies = 1, stop_notify = False\<rparr> (Start i t) r"
proof -
  let ?q = "\<lparr>tasks = [7 :: nat], stop = False, workers = [Loop_head], notifies = 1, stop_notify = False\<rparr>"
  have "pool_step (pool_new 1) (Accept 7) ?q"
    using enqueue [of "pool_new 1" 7] by (simp add: pool_new_def mutex_free_def)
  then have "pool_run (pool_new (Suc 0)) [Accept 7] ?q"
    using trace_steps [of pool_step "pool_new 1" "[(Accept 7, ?q)]"] by simp
  then show ?thesis by (rule pool_no_lost_task) simp_all
qed

text \<open>
  Once \<open>stop\<close> is set, at most as many tasks start as there are workers (the other queued tasks are
  dropped), and the pool makes at most \<open>5 * workers + notifies + 1\<close> further steps other than
  refusing tasks: nothing runs for ever after the destructor has begun.
\<close>

lemma worker_rank_le: "worker_rank w \<le> 5"
  by (cases w) simp_all

theorem pool_stop_bounds:
  assumes "pool_run p es q" "stop p"
  shows "length (started es) \<le> length (workers p) \<and>
    effective es \<le> 5 * length (workers p) + notifies p + 1"
proof -
  have "sum_list (map worker_rank (workers p)) \<le> sum_list (map (\<lambda>w. 5) (workers p))"
    by (rule sum_list_mono) (rule worker_rank_le)
  then have "pool_rank p \<le> 5 * length (workers p) + notifies p + 1"
    by (simp add: pool_rank_def sum_list_triv mult.commute)
  then show ?thesis using pool_run_stopped [OF assms] takers_le [of p] by linarith
qed

theorem pool_stop_bounds_witness:
  "length (started [Refuse (7 :: nat)]) \<le> 0 \<and> effective [Refuse (7 :: nat)] \<le> 1"
proof -
  let ?p = "\<lparr>tasks = [], stop = True, workers = [], notifies = 0, stop_notify = False\<rparr> :: nat pool"
  have "pool_step ?p (Refuse 7) ?p" using enqueue_stopped [of ?p 7] by (simp add: mutex_free_def)
  then have "pool_run ?p [Refuse 7] ?p" using trace_steps [of pool_step ?p "[(Refuse 7, ?p)]"] by simp
  from pool_stop_bounds [OF this] show ?thesis by simp
qed

text \<open>
  C19. The destructor can lose its wake-up: because \<open>stop\<close> is stored and \<open>notify_all\<close> called without the
  mutex, both can fall between a worker's test of the wait predicate and its blocking. The pool
  then reaches a state in which \<open>stop\<close> is set, the notification is gone, the worker is blocked, and
  nothing but a refused task or a spurious wake-up can happen, so \<open>join\<close> does not return.
\<close>

theorem pool_stop_lost_wakeup:
  "\<exists>es q. pool_run (pool_new 1 :: 'a pool) es q \<and> stop q \<and> workers q = [Blocked] \<and>
     {e. \<exists>r. pool_step q e r} \<subseteq> range Refuse \<union> range Spurious"
proof -
  let ?s = "\<lambda>st w n. \<lparr>tasks = [] :: 'a list, stop = st, workers = [w], notifies = 0, stop_notify = n\<rparr>"
  have "pool_step (pool_new 1) (Worker 0) (?s False Acquiring False)"
    using head_go [of 0 "pool_new 1 :: 'a pool"] by (simp add: pool_new_def)
  moreover have "pool_step (?s False Acquiring False) (Worker 0) (?s False Checked False)"
    using check [of 0 "?s False Acquiring False"] by (simp add: mutex_free_def)
  moreover have "pool_step (?s False Checked False) Store_stop (?s True Checked True)"
    using store_stop [of "?s False Checked False"] by simp
  moreover have "pool_step (?s True Checked True) Notify_all (?s True Checked False)"
    using notify_all [of "?s True Checked True"] by (simp add: wake_def)
  moreover have "pool_step (?s True Checked False) (Worker 0) (?s True Blocked False)"
    using block [of 0 "?s True Checked False"] by simp
  ultimately have "pool_run (pool_new 1) [Worker 0, Worker 0, Store_stop, Notify_all, Worker 0]
      (?s True Blocked False)"
    using trace_steps [of pool_step "pool_new 1" "[(Worker 0, ?s False Acquiring False), (Worker 0, ?s False Checked False),
      (Store_stop, ?s True Checked True), (Notify_all, ?s True Checked False), (Worker 0, ?s True Blocked False)]"]
    by simp
  moreover have "{e. \<exists>r. pool_step (?s True Blocked False) e r} \<subseteq> range Refuse \<union> range Spurious"
    by (auto elim!: pool_stepE)
  ultimately show ?thesis by fastforce
qed

end
