(* ===== verification/Server_System.thy ===== *)
theory Server_System
  imports ThreadPool
begin

text \<open>
  The threads of a server of \<open>src/src/server.cpp\<close> together: the accept thread that runs \<open>accept_loop\<close>, the workers
  of the thread pool, and the thread that calls \<open>stop\<close> and then destroys the server. The accept thread
  tests \<open>running\<close>, waits in \<open>accept\<close>, and hands the descriptor it gets to \<open>enqueue\<close>; a result below 0
  (timeout, interruption, closed socket) leads back to the test. \<open>accept\<close> may return either kind of
  result at any time, also after the socket was shut down. \<open>stop\<close> clears \<open>running\<close>, closes the socket and
  joins the accept thread; the destructor of the pool runs after that, because \<open>~Server\<close> calls
  \<open>stop\<close> before its members are destroyed. The tasks of the pool are the descriptors. The pool
  is the step relation of theory \<open>ThreadPool\<close>, and each run of the system contains a run of the pool.
\<close>

section \<open>State and steps\<close>

datatype acceptor =
    At_test          \<comment> \<open>about to test \<open>while (running.load())\<close>\<close>
  | At_accept        \<comment> \<open>in \<open>accept\<close>\<close>
  | Holding int      \<comment> \<open>about to \<open>enqueue\<close> this descriptor\<close>
  | Notifying        \<comment> \<open>in \<open>enqueue\<close>, about to call \<open>notify_one\<close>\<close>
  | Finished

datatype stopper =
    Serving          \<comment> \<open>\<open>stop\<close> has not been called\<close>
  | Joining          \<comment> \<open>in \<open>stop\<close>, waiting for the accept thread\<close>
  | Joined           \<comment> \<open>\<open>stop\<close> has returned\<close>

record server_sys =
  sys_running :: bool
  acceptor :: acceptor
  stopper :: stopper
  sys_pool :: "int pool"

text \<open>The state when \<open>start\<close> returns.\<close>

definition sys_started :: "nat \<Rightarrow> server_sys" where
  "sys_started threads =
     \<lparr>sys_running = True, acceptor = At_test, stopper = Serving, sys_pool = pool_new threads\<rparr>"

datatype sys_event =
    Acceptor
  | Accepted int
  | Pool "int event"
  | Stop_call
  | Join

fun worker_event :: "int event \<Rightarrow> bool" where
  "worker_event (Start i t) = True"
| "worker_event (Worker i) = True"
| "worker_event (Spurious i) = True"
| "worker_event _ = False"

inductive sys_step :: "server_sys \<Rightarrow> sys_event \<Rightarrow> server_sys \<Rightarrow> bool" where
  test_go: "acceptor s = At_test \<Longrightarrow> sys_running s \<Longrightarrow> sys_step s Acceptor (s\<lparr>acceptor := At_accept\<rparr>)"
| test_exit: "acceptor s = At_test \<Longrightarrow> \<not> sys_running s \<Longrightarrow> sys_step s Acceptor (s\<lparr>acceptor := Finished\<rparr>)"
| accept_fails: "acceptor s = At_accept \<Longrightarrow> sys_step s Acceptor (s\<lparr>acceptor := At_test\<rparr>)"
| accept_returns: "acceptor s = At_accept \<Longrightarrow> 0 \<le> fd \<Longrightarrow> sys_step s (Accepted fd) (s\<lparr>acceptor := Holding fd\<rparr>)"
| push: "acceptor s = Holding fd \<Longrightarrow> pool_step (sys_pool s) (Accept fd) p \<Longrightarrow>
    sys_step s (Pool (Accept fd)) (s\<lparr>acceptor := Notifying, sys_pool := p\<rparr>)"
| refused: "acceptor s = Holding fd \<Longrightarrow> pool_step (sys_pool s) (Refuse fd) p \<Longrightarrow>
    sys_step s (Pool (Refuse fd)) (s\<lparr>acceptor := At_test, sys_pool := p\<rparr>)"
| pushed: "acceptor s = Notifying \<Longrightarrow> pool_step (sys_pool s) Notify_one p \<Longrightarrow>
    sys_step s (Pool Notify_one) (s\<lparr>acceptor := At_test, sys_pool := p\<rparr>)"
| works: "worker_event e \<Longrightarrow> pool_step (sys_pool s) e p \<Longrightarrow> sys_step s (Pool e) (s\<lparr>sys_pool := p\<rparr>)"
| stop_call: "stopper s = Serving \<Longrightarrow> sys_step s Stop_call (s\<lparr>sys_running := False, stopper := Joining\<rparr>)"
| join: "stopper s = Joining \<Longrightarrow> acceptor s = Finished \<Longrightarrow> sys_step s Join (s\<lparr>stopper := Joined\<rparr>)"
| destroy: "stopper s = Joined \<Longrightarrow> e = Store_stop \<or> e = Notify_all \<Longrightarrow> pool_step (sys_pool s) e p \<Longrightarrow>
    sys_step s (Pool e) (s\<lparr>sys_pool := p\<rparr>)"

inductive_cases sys_stepE: "sys_step s e t"

abbreviation sys_run :: "server_sys \<Rightarrow> sys_event list \<Rightarrow> server_sys \<Rightarrow> bool" where
  "sys_run \<equiv> trace sys_step"

section \<open>The pool inside the system\<close>

definition pool_events :: "sys_event list \<Rightarrow> int event list" where
  "pool_events es = concat (map (\<lambda>e. case e of Pool x \<Rightarrow> [x] | _ \<Rightarrow> []) es)"

definition connections :: "sys_event list \<Rightarrow> int list" where
  "connections es = concat (map (\<lambda>e. case e of Accepted fd \<Rightarrow> [fd] | _ \<Rightarrow> []) es)"

lemma events_append [simp]:
  "pool_events (es @ fs) = pool_events es @ pool_events fs"
  "connections (es @ fs) = connections es @ connections fs"
  by (simp_all add: pool_events_def connections_def)

lemma events_simps [simp]:
  "pool_events [] = []" "pool_events [Pool x] = [x]" "pool_events [Acceptor] = []" "pool_events [Accepted fd] = []"
  "pool_events [Stop_call] = []" "pool_events [Join] = []"
  "connections [] = []" "connections [Pool x] = []" "connections [Acceptor] = []" "connections [Accepted fd] = [fd]"
  "connections [Stop_call] = []" "connections [Join] = []"
  by (simp_all add: pool_events_def connections_def)

lemma sys_step_pool:
  "sys_step s e t \<Longrightarrow> pool_run (pool_new n) es (sys_pool s) \<Longrightarrow> pool_run (pool_new n) (es @ pool_events [e]) (sys_pool t)"
  by (erule sys_stepE) (auto intro: trace_snoc)

text \<open>Refinement: what the pool does in a run of the system is a run of the pool alone.\<close>

lemma sys_run_pool:
  assumes "sys_run (sys_started n) es q"
  shows "pool_run (pool_new n) (pool_events es) (sys_pool q)"
  using assms
proof (induction "sys_started n" es q rule: trace.induct)
  case trace_nil
  then show ?case by (simp add: sys_started_def trace.trace_nil)
next
  case (trace_snoc es t e u)
  then show ?case using sys_step_pool by simp
qed

section \<open>Invariant\<close>

fun in_hand :: "acceptor \<Rightarrow> int list" where
  "in_hand (Holding fd) = [fd]"
| "in_hand _ = []"

definition sys_inv :: "server_sys \<Rightarrow> bool" where
  "sys_inv s \<longleftrightarrow>
     (stopper s = Serving \<longrightarrow> sys_running s) \<and> (stopper s \<noteq> Serving \<longrightarrow> \<not> sys_running s) \<and>
     (stopper s = Joined \<longrightarrow> acceptor s = Finished) \<and>
     (stop (sys_pool s) \<longrightarrow> stopper s = Joined) \<and>
     notifies (sys_pool s) = (if acceptor s = Notifying then 1 else 0)"

lemma sys_inv_started: "sys_inv (sys_started n)"
  by (simp add: sys_inv_def sys_started_def pool_new_def)

lemma worker_step_frame:
  "pool_step p e q \<Longrightarrow> worker_event e \<Longrightarrow> stop q = stop p \<and> notifies q = notifies p"
  by (erule pool_stepE) auto

lemma sys_inv_step: "sys_step s e t \<Longrightarrow> sys_inv s \<Longrightarrow> sys_inv t"
proof (induction rule: sys_step.induct)
  case (works e s p)
  then show ?case using worker_step_frame [of "sys_pool s" e p] by (simp add: sys_inv_def)
qed (auto simp: sys_inv_def elim!: pool_stepE)

lemma sys_inv_run: "sys_run s es t \<Longrightarrow> sys_inv s \<Longrightarrow> sys_inv t"
  by (erule trace_invariant) (auto intro: sys_inv_step)

text \<open>While it is not stopped the pool refuses nothing, and it is stopped only after the accept thread has ended.\<close>

lemma sys_step_no_refusal: "sys_step s (Pool (Refuse fd)) t \<Longrightarrow> \<not> sys_inv s"
  by (auto simp: sys_inv_def elim!: sys_stepE pool_stepE)

lemma sys_step_connections:
  "sys_step s e t \<Longrightarrow> sys_inv s \<Longrightarrow>
     in_hand (acceptor s) @ connections [e] = accepted (pool_events [e]) @ in_hand (acceptor t)"
proof (induction rule: sys_step.induct)
  case (refused s fd p)
  then show ?case using sys_step_no_refusal sys_step.refused by blast
next
  case (works e s p)
  then show ?case by (cases e) (auto simp: accepted_def)
next
  case (destroy s e p)
  then show ?case by (auto simp: accepted_def)
qed (auto simp: accepted_def)

lemma sys_run_connections:
  assumes "sys_run (sys_started n) es q"
  shows "connections es = accepted (pool_events es) @ in_hand (acceptor q) \<and> (\<forall>fd. Refuse fd \<notin> set (pool_events es))"
  using assms
proof (induction "sys_started n" es q rule: trace.induct)
  case trace_nil
  then show ?case by (simp add: sys_started_def accepted_def)
next
  case (trace_snoc es t e u)
  have inv: "sys_inv t" using sys_inv_run [OF trace_snoc.hyps(1) sys_inv_started] .
  have "Refuse fd \<notin> set (pool_events [e])" for fd
    using sys_step_no_refusal [of t fd u] trace_snoc.hyps(3) inv by (cases e) auto
  then show ?case using trace_snoc.hyps(2) sys_step_connections [OF trace_snoc.hyps(3) inv] by simp
qed

text \<open>
  C13. The server serves every connection at most once and in the order of acceptance, and never turns one
  away: in every run, the accepted descriptors are those whose handling has started, followed by
  those waiting in the queue, followed by the one the accept thread is about to enqueue; and \<open>enqueue\<close>
  never finds the pool stopped.
\<close>

theorem server_handles_connections_in_order:
  assumes "sys_run (sys_started n) es q"
  shows "connections es = started (pool_events es) @ tasks (sys_pool q) @ in_hand (acceptor q) \<and>
    (\<forall>fd. Pool (Refuse fd) \<notin> set es)"
proof -
  note c = sys_run_connections [OF assms]
  have "accepted (pool_events es) = started (pool_events es) @ tasks (sys_pool q)"
    using pool_run_tasks [OF sys_run_pool [OF assms]] by (simp add: pool_new_def)
  moreover have "Pool (Refuse fd) \<in> set es \<Longrightarrow> Refuse fd \<in> set (pool_events es)" for fd
    by (force simp: pool_events_def)
  ultimately show ?thesis using c by auto
qed

lemma example_accept: "sys_run (sys_started 0) [Acceptor, Accepted 5, Pool (Accept 5)]
    \<lparr>sys_running = True, acceptor = Notifying, stopper = Serving, sys_pool = (pool_new 0)\<lparr>tasks := [5], notifies := 1\<rparr>\<rparr>"
proof -
  let ?s = "\<lambda>a p. \<lparr>sys_running = True, acceptor = a, stopper = Serving, sys_pool = p\<rparr>"
  let ?p = "pool_new 0 :: int pool"
  have "sys_step (sys_started 0) Acceptor (?s At_accept ?p)"
    using test_go [of "sys_started 0"] by (simp add: sys_started_def)
  moreover have "sys_step (?s At_accept ?p) (Accepted 5) (?s (Holding 5) ?p)"
    using accept_returns [of "?s At_accept ?p" 5] by simp
  moreover have "sys_step (?s (Holding 5) ?p) (Pool (Accept 5)) (?s Notifying (?p\<lparr>tasks := [5], notifies := 1\<rparr>))"
    using push [of "?s (Holding 5) ?p" 5] enqueue [of ?p 5] by (simp add: pool_new_def mutex_free_def)
  ultimately show ?thesis
    using trace_steps [of sys_step "sys_started 0" "[(Acceptor, ?s At_accept ?p), (Accepted 5, ?s (Holding 5) ?p),
      (Pool (Accept 5), ?s Notifying (?p\<lparr>tasks := [5], notifies := 1\<rparr>))]"] by simp
qed

theorem server_handles_connections_in_order_witness:
  "connections [Acceptor, Accepted 5, Pool (Accept 5)] = [] @ [5] @ []"
  using server_handles_connections_in_order [OF example_accept] by (simp add: pool_events_def started_def)

section \<open>Stopping the server\<close>

fun acceptor_rank :: "acceptor \<Rightarrow> nat" where
  "acceptor_rank At_accept = 4"
| "acceptor_rank (Holding fd) = 3"
| "acceptor_rank Notifying = 2"
| "acceptor_rank At_test = 1"
| "acceptor_rank Finished = 0"

fun acceptor_event :: "sys_event \<Rightarrow> bool" where
  "acceptor_event Acceptor = True"
| "acceptor_event (Accepted fd) = True"
| "acceptor_event (Pool e) = (case e of Accept fd \<Rightarrow> True | Refuse fd \<Rightarrow> True | Notify_one \<Rightarrow> True | _ \<Rightarrow> False)"
| "acceptor_event _ = False"

lemma sys_step_rank:
  "sys_step s e t \<Longrightarrow> \<not> sys_running s \<Longrightarrow>
     \<not> sys_running t \<and> acceptor_rank (acceptor t) + (if acceptor_event e then 1 else 0) \<le> acceptor_rank (acceptor s)"
proof (induction rule: sys_step.induct)
  case (works e s p)
  then show ?case by (cases e) auto
qed auto

lemma sys_run_rank:
  "sys_run s es t \<Longrightarrow> \<not> sys_running s \<Longrightarrow>
     \<not> sys_running t \<and> acceptor_rank (acceptor t) + length (filter acceptor_event es) \<le> acceptor_rank (acceptor s)"
proof (induction rule: trace.induct)
  case (trace_snoc s es t e u)
  then show ?case using sys_step_rank [of t e u] by (auto split: if_splits)
qed simp

lemma acceptor_rank_le: "acceptor_rank a \<le> 4"
  by (cases a) simp_all

text \<open>A step of the accept thread, or the step of the worker that keeps the queue's mutex from it.\<close>

lemma acceptor_progress:
  assumes "sys_inv s" "acceptor s \<noteq> Finished"
  shows "(\<exists>e t. sys_step s e t \<and> acceptor_event e) \<or>
    (\<exists>i t. sys_step s (Pool (Worker i)) t \<and> i < length (workers (sys_pool s)) \<and> workers (sys_pool s) ! i = Checked)"
proof (cases "acceptor s")
  case At_test
  then show ?thesis using test_go [of s] test_exit [of s] by (meson acceptor_event.simps(1))
next
  case At_accept
  then show ?thesis using accept_fails [of s] by (meson acceptor_event.simps(1))
next
  case (Holding fd)
  show ?thesis
  proof (cases "mutex_free (sys_pool s)")
    case True
    moreover have "\<not> stop (sys_pool s)" using assms Holding by (auto simp: sys_inv_def)
    ultimately show ?thesis
      using push [OF Holding enqueue [of "sys_pool s" fd]] acceptor_event.simps(3) [of "Accept fd"] by fastforce
  next
    case False
    then obtain i where i: "i < length (workers (sys_pool s))" "workers (sys_pool s) ! i = Checked"
      by (auto simp: mutex_free_def in_set_conv_nth)
    then show ?thesis using works [of "Worker i" s] block [OF i] by auto
  qed
next
  case Notifying
  then have n: "notifies (sys_pool s) = Suc 0" using assms by (simp add: sys_inv_def)
  have "\<exists>p. pool_step (sys_pool s) Notify_one p"
    using notify_one [OF n] notify_none [OF n] by (metis in_set_conv_nth)
  then show ?thesis using pushed [OF Notifying] by fastforce
qed (use assms in simp)

definition checked :: "server_sys \<Rightarrow> nat" where
  "checked s = length (filter ((=) Checked) (workers (sys_pool s)))"

lemma filter_update_length:
  assumes "i < length xs" "P (xs ! i)" "\<not> P v"
  shows "length (filter P (xs[i := v])) < length (filter P xs)"
proof -
  have "filter P xs = filter P (take i xs) @ xs ! i # filter P (drop (Suc i) xs)"
    using assms(2) by (subst id_take_nth_drop [OF assms(1)]) simp
  then show ?thesis using assms by (simp add: upd_conv_take_nth_drop)
qed

lemma filter_update_same:
  assumes "i < length xs" "\<not> P (xs ! i)" "\<not> P v"
  shows "length (filter P (xs[i := v])) = length (filter P xs)"
proof -
  have "filter P xs = filter P (take i xs) @ filter P (drop (Suc i) xs)"
    using assms(2) by (subst id_take_nth_drop [OF assms(1)]) simp
  then show ?thesis using assms by (simp add: upd_conv_take_nth_drop)
qed

lemma acceptor_step_checked: "sys_step s e t \<Longrightarrow> acceptor_event e \<Longrightarrow> checked t = checked s"
proof (induction rule: sys_step.induct)
  case (pushed s p)
  then show ?case
    using filter_update_same [of _ "workers (sys_pool s)" "(=) Checked" Acquiring]
    by (auto simp: checked_def elim!: pool_stepE)
next
  case (works e s p)
  then show ?case by (cases e) auto
qed (auto simp: checked_def elim!: pool_stepE)

lemma block_step_checked:
  assumes "sys_step s (Pool (Worker i)) t" "i < length (workers (sys_pool s))" "workers (sys_pool s) ! i = Checked"
  shows "checked t < checked s \<and> acceptor t = acceptor s"
proof -
  have "pool_step (sys_pool s) (Worker i) (sys_pool t) \<and> acceptor t = acceptor s"
    using assms(1) by (auto elim: sys_stepE)
  moreover have "sys_pool t = (sys_pool s)\<lparr>workers := (workers (sys_pool s))[i := Blocked]\<rparr>"
    using calculation assms(3) by (auto elim!: pool_stepE)
  ultimately show ?thesis
    using filter_update_length [OF assms(2), of "(=) Checked" Blocked] assms(3) by (simp add: checked_def)
qed

lemma sys_step_stopper: "sys_step s e t \<Longrightarrow> stopper s = Joining \<Longrightarrow> e \<noteq> Join \<Longrightarrow> stopper t = Joining"
  by (erule sys_stepE) auto

lemma stop_can_finish:
  assumes "sys_inv s" "stopper s = Joining"
  shows "\<exists>es t. sys_run s es t \<and> stopper t = Joined \<and> length es \<le> acceptor_rank (acceptor s) + checked s + 1"
  using assms
proof (induction "acceptor_rank (acceptor s) + checked s" arbitrary: s rule: less_induct)
  case less
  show ?case
  proof (cases "acceptor s = Finished")
    case True
    then show ?thesis using trace_single [of sys_step, OF join [OF less.prems(2) True]] by fastforce
  next
    case False
    have run: "\<not> sys_running s" using less.prems by (simp add: sys_inv_def)
    obtain e t where t: "sys_step s e t" "e \<noteq> Join"
      "acceptor_rank (acceptor t) + checked t < acceptor_rank (acceptor s) + checked s"
      using acceptor_progress [OF less.prems(1) False]
    proof (elim disjE exE conjE)
      fix e t assume e: "sys_step s e t" "acceptor_event e"
      then have "acceptor_rank (acceptor t) < acceptor_rank (acceptor s)" "checked t = checked s"
        using sys_step_rank [OF e(1) run] acceptor_step_checked [OF e] by simp_all
      moreover have "e \<noteq> Join" using e(2) by auto
      ultimately show thesis using that [OF e(1)] by simp
    next
      fix i t assume "sys_step s (Pool (Worker i)) t" "i < length (workers (sys_pool s))"
        "workers (sys_pool s) ! i = Checked"
      then show thesis using that [of "Pool (Worker i)" t] block_step_checked by simp
    qed
    obtain es u where u: "sys_run t es u" "stopper u = Joined"
      "length es \<le> acceptor_rank (acceptor t) + checked t + 1"
      using less.hyps [OF t(3) sys_inv_step [OF t(1) less.prems(1)] sys_step_stopper [OF t(1) less.prems(2) t(2)]] by blast
    then show ?thesis
      using trace_append [OF u(1) trace_single [of sys_step, OF t(1)]] t(3) by fastforce
  qed
qed

text \<open>
  C14. \<open>stop\<close> of a running server returns: after it has cleared \<open>running\<close>, the accept thread makes at most
  four more steps of its own whatever \<open>accept\<close> returns, and from every state of the system in which \<open>stop\<close>
  waits for the thread there is a continuation in which the join succeeds, at most as many steps
  long as the accept thread's rank and the workers about to block, plus one.
\<close>

theorem server_stop_joins:
  assumes "sys_run (sys_started n) es q" "stopper q = Joining"
  shows "(\<forall>fs r. sys_run q fs r \<longrightarrow> length (filter acceptor_event fs) \<le> 4) \<and>
    (\<exists>fs r. sys_run q fs r \<and> stopper r = Joined \<and> length fs \<le> 5 + checked q)"
proof -
  have inv: "sys_inv q" using sys_inv_run [OF assms(1) sys_inv_started] .
  then have "\<not> sys_running q" using assms(2) by (simp add: sys_inv_def)
  then have "sys_run q fs r \<Longrightarrow> length (filter acceptor_event fs) \<le> 4" for fs r
    using sys_run_rank [of q fs r] acceptor_rank_le [of "acceptor q"] by linarith
  then show ?thesis using stop_can_finish [OF inv assms(2)] acceptor_rank_le [of "acceptor q"] by fastforce
qed

lemma example_stop: "sys_run (sys_started 1) [Stop_call]
    \<lparr>sys_running = False, acceptor = At_test, stopper = Joining, sys_pool = pool_new 1\<rparr>"
  using stop_call [of "sys_started 1"] by (intro trace_single) (simp add: sys_started_def)

theorem server_stop_joins_witness:
  "\<exists>fs r. sys_run \<lparr>sys_running = False, acceptor = At_test, stopper = Joining, sys_pool = pool_new 1\<rparr> fs r \<and>
     stopper r = Joined \<and> length fs \<le> 5"
  using server_stop_joins [OF example_stop] by (simp add: checked_def pool_new_def)

section \<open>A pool without workers\<close>

lemma pool_step_no_workers: "pool_step p e q \<Longrightarrow> workers p = [] \<Longrightarrow> workers q = [] \<and> started [e] = []"
  by (erule pool_stepE) (auto simp: started_def)

lemma pool_run_no_workers: "pool_run p es q \<Longrightarrow> workers p = [] \<Longrightarrow> workers q = [] \<and> started es = []"
proof (induction rule: trace.induct)
  case (trace_snoc p es q e r)
  then show ?case using pool_step_no_workers [of q e r] by simp
qed (simp add: started_def)

lemma no_workers_no_service:
  "sys_run (sys_started 0) es q \<Longrightarrow> started (pool_events es) = []"
  using pool_run_no_workers [OF sys_run_pool] by (simp add: pool_new_def)

end
