(* ===== verification/Chord_Maintenance.thy ===== *)
theory Chord_Maintenance
  imports Chord_Invariant
begin

text \<open>
  The three maintenance loops of \<open>src/src/chord.cpp\<close> and the two functions that print the routing tables. A
  loop tests \<open>running\<close>, makes a round, catches exceptions, and sleeps; the sleep ends early when
  \<open>running\<close> is cleared, and the loop then ends. What the other threads do to the node while a loop sleeps
  is a parameter: one function for each sleep. A loop of the model that has used up its list of
  sleeps ends with \<open>Out_of_fuel\<close>, so a result without this fault is one of the loop.
\<close>

section \<open>The loops\<close>

type_synonym 'w others = "ChordNode \<times> 'w \<Rightarrow> ChordNode \<times> 'w"

definition interruptible_sleep :: "'w others \<Rightarrow> ('w, bool) cprog" where
  "interruptible_sleep others = (\<lambda>s. case others s of (n, w) \<Rightarrow> (Inr (\<not> maintaining n), (n, w)))"

fun maintenance_loop :: "('w, unit) cprog \<Rightarrow> 'w others list \<Rightarrow> ('w, unit) cprog" where
  "maintenance_loop body sleeps (n, w) =
     (if \<not> maintaining n then (Inr (), (n, w))
      else case sleeps of
        [] \<Rightarrow> (Inl Out_of_fuel, (n, w))
      | others # rest \<Rightarrow>
          bindP (catchP body (ret ())) (\<lambda>_.
          bindP (interruptible_sleep others) (\<lambda>interrupted.
            if interrupted then ret () else maintenance_loop body rest)) (n, w))"

declare maintenance_loop.simps [simp del]

definition stabilize_loop :: "'w os \<Rightarrow> 'w others list \<Rightarrow> ('w, unit) cprog" where
  "stabilize_loop os = maintenance_loop (stabilize os)"

definition fix_fingers_loop :: "'w os \<Rightarrow> 'w others list \<Rightarrow> ('w, unit) cprog" where
  "fix_fingers_loop os = maintenance_loop (fix_fingers os)"

definition failure_detection_loop :: "'w os \<Rightarrow> 'w others list \<Rightarrow> ('w, unit) cprog" where
  "failure_detection_loop os = maintenance_loop (failure_detection_round os)"

section \<open>Printing\<close>

text \<open>The lines written to the standard output.\<close>

definition show_ptr :: "node_ptr \<Rightarrow> string" where
  "show_ptr p = (case p of None \<Rightarrow> ''null'' | Some n \<Rightarrow> node_to_string n)"

definition finger_lines :: "ChordNode \<Rightarrow> string list" where
  "finger_lines n =
     [''Finger table for node '' @ node_to_string (self_info n) @ '':''] @
     map (\<lambda>i. ''  ['' @ to_string_nat i @ ''] start='' @ take 8 (hash_to_string (get_finger_start n (int i))) @
              '' -> '' @ show_ptr (finger_table n ! i)) [0..<min 10 FINGER_TABLE_SIZE] @
     (if FINGER_TABLE_SIZE > 10 then [''  ... (showing first 10 entries)''] else [])"

definition print_finger_table :: "('w, string list) cprog" where
  "print_finger_table = with_lock (node_get finger_lines)"

definition successor_lines :: "ChordNode \<Rightarrow> string list" where
  "successor_lines n =
     [''Successor list for node '' @ node_to_string (self_info n) @ '':''] @
     map (\<lambda>i. ''  ['' @ to_string_nat i @ ''] '' @ show_ptr (successor_list n ! i)) [0..<length (successor_list n)]"

definition print_successor_list :: "('w, string list) cprog" where
  "print_successor_list = with_lock (node_get successor_lines)"

section \<open>Rounds of a loop\<close>

lemma loop_round:
  assumes "maintaining n" "body (n, w) = (Inr (), (n1, w1))" "others (n1, w1) = (n2, w2)" "maintaining n2"
  shows "maintenance_loop body (others # rest) (n, w) = maintenance_loop body rest (n2, w2)"
  using assms by (subst maintenance_loop.simps) (simp add: bindP_def catchP_def interruptible_sleep_def)

lemma loop_interrupted:
  assumes "maintaining n" "body (n, w) = (Inr (), (n1, w1))" "others (n1, w1) = (n2, w2)" "\<not> maintaining n2"
  shows "maintenance_loop body (others # rest) (n, w) = (Inr (), (n2, w2))"
  using assms by (subst maintenance_loop.simps) (simp add: bindP_def catchP_def interruptible_sleep_def)

lemma loop_fault:
  assumes "maintaining n" "body (n, w) = (Inl f, (n1, w1))" "\<not> std_exception f"
  shows "maintenance_loop body (others # rest) (n, w) = (Inl f, (n1, w1))"
  using assms by (subst maintenance_loop.simps) (simp add: bindP_def catchP_def)

section \<open>The finger table\<close>

text \<open>The entry that a round of \<open>fix_fingers\<close> computes for index \<open>i\<close>, and whether it gets that far.\<close>

definition finger_of :: "ChordNode \<Rightarrow> nat \<Rightarrow> node_ptr" where
  "finger_of n i =
     (if responsible n (get_finger_start n (int i)) then Some (self_info n) else successor_list n ! 0)"

definition finger_known :: "ChordNode \<Rightarrow> nat \<Rightarrow> bool" where
  "finger_known n i \<longleftrightarrow>
     responsible n (get_finger_start n (int i)) \<or> successor_covers n (get_finger_start n (int i))"

definition fix_index :: "ChordNode \<Rightarrow> nat \<Rightarrow> nat" where
  "fix_index n j = (next_finger_to_fix n + j) mod FINGER_TABLE_SIZE"

definition after_fixes :: "ChordNode \<Rightarrow> nat \<Rightarrow> ChordNode" where
  "after_fixes n k = n\<lparr>next_finger_to_fix := fix_index n k,
     finger_table := map (\<lambda>i. if i \<in> fix_index n ` {1..k} then finger_of n i else finger_table n ! i)
       [0..<FINGER_TABLE_SIZE]\<rparr>"

lemma after_fixes_select [simp]:
  "maintaining (after_fixes n k) = maintaining n" "routing_locked (after_fixes n k) = routing_locked n"
  "self_info (after_fixes n k) = self_info n" "successor_list (after_fixes n k) = successor_list n"
  "predecessor (after_fixes n k) = predecessor n" "next_finger_to_fix (after_fixes n k) = fix_index n k"
  by (simp_all add: after_fixes_def)

lemma after_fixes_routing [simp]:
  "responsible (after_fixes n k) h = responsible n h" "successor_covers (after_fixes n k) h = successor_covers n h"
  "get_finger_start (after_fixes n k) i = get_finger_start n i"
  by (simp_all add: responsible_def successor_covers_def get_finger_start_def cong: option.case_cong)

lemma after_fixes_zero: "chord_wf n \<Longrightarrow> after_fixes n 0 = n"
  by (cases n) (simp add: after_fixes_def fix_index_def chord_wf_def list_eq_iff_nth_eq)

lemma fix_index_Suc: "(fix_index n k + 1) mod FINGER_TABLE_SIZE = fix_index n (Suc k)"
  by (simp add: fix_index_def mod_simps)

lemma fix_index_lt: "fix_index n k < FINGER_TABLE_SIZE"
  by (simp add: fix_index_def)

lemma fix_index_covers:
  assumes "i < FINGER_TABLE_SIZE"
  shows "\<exists>j \<in> {1..FINGER_TABLE_SIZE}. fix_index n j = i"
proof -
  let ?x = "next_finger_to_fix n mod FINGER_TABLE_SIZE"
  have x: "?x < FINGER_TABLE_SIZE" by simp
  have *: "fix_index n j = (?x + j) mod FINGER_TABLE_SIZE" for j by (simp add: fix_index_def mod_simps)
  show ?thesis
  proof (cases "?x < i")
    case True
    then show ?thesis using assms * [of "i - ?x"] by (intro bexI [of _ "i - ?x"]) auto
  next
    case False
    then have "fix_index n (FINGER_TABLE_SIZE + i - ?x) = (FINGER_TABLE_SIZE + i) mod FINGER_TABLE_SIZE"
      using * [of "FINGER_TABLE_SIZE + i - ?x"] x by (simp add: algebra_simps)
    then have "fix_index n (FINGER_TABLE_SIZE + i - ?x) = i" using assms by simp
    then show ?thesis using False x assms by (intro bexI [of _ "FINGER_TABLE_SIZE + i - ?x"]) auto
  qed
qed

lemma fix_fingers_step:
  assumes "chord_wf n" "maintaining n"
  shows "fix_fingers os (after_fixes n k, w) =
    (if finger_known n (fix_index n (Suc k)) then (Inr (), (after_fixes n (Suc k), w))
     else (Inl Deadlock, ((after_fixes n k)\<lparr>next_finger_to_fix := fix_index n (Suc k), routing_locked := True\<rparr>, w)))"
proof -
  let ?i = "fix_index n (Suc k)"
  have l: "\<not> routing_locked (after_fixes n k)" "maintaining (after_fixes n k)" using assms by (simp_all add: chord_wf_def)
  have "(finger_table (after_fixes n k))[?i := finger_of n ?i] = finger_table (after_fixes n (Suc k))"
    using fix_index_lt [of n "Suc k"]
    by (auto simp: after_fixes_def list_eq_iff_nth_eq nth_list_update atLeastAtMostSuc_conv)
  then have "(after_fixes n k)\<lparr>next_finger_to_fix := ?i, finger_table := (finger_table (after_fixes n k))[?i := finger_of n ?i]\<rparr> =
      after_fixes n (Suc k)"
    by (simp add: after_fixes_def)
  then show ?thesis
    using fix_fingers_result [OF l, of os w] fix_index_Suc [of n k]
    by (auto simp: Let_def finger_of_def finger_known_def)
qed

definition undisturbed :: "'w others" where
  "undisturbed = (\<lambda>s. s)"

lemma fix_rounds:
  assumes "chord_wf n" "maintaining n" "\<forall>j \<in> {Suc m..m + k}. finger_known n (fix_index n j)"
  shows "fix_fingers_loop os (replicate k undisturbed @ rest) (after_fixes n m, w) = fix_fingers_loop os rest (after_fixes n (m + k), w)"
  using assms(3)
proof (induction k arbitrary: m)
  case (Suc k)
  have "fix_fingers os (after_fixes n m, w) = (Inr (), (after_fixes n (Suc m), w))"
    using fix_fingers_step [OF assms(1,2), of os m w] Suc.prems by auto
  then have "fix_fingers_loop os (replicate (Suc k) undisturbed @ rest) (after_fixes n m, w) =
      fix_fingers_loop os (replicate k undisturbed @ rest) (after_fixes n (Suc m), w)"
    using assms(2) loop_round [of "after_fixes n m" "fix_fingers os" w "after_fixes n (Suc m)" w undisturbed]
    by (simp add: fix_fingers_loop_def undisturbed_def)
  then show ?case using Suc.IH [of "Suc m"] Suc.prems by auto
qed simp

lemma after_all_fixes:
  assumes "chord_wf n"
  shows "after_fixes n FINGER_TABLE_SIZE = n\<lparr>finger_table := map (finger_of n) [0..<FINGER_TABLE_SIZE]\<rparr>"
proof -
  have "i < FINGER_TABLE_SIZE \<Longrightarrow> i \<in> fix_index n ` {1..FINGER_TABLE_SIZE}" for i
    using fix_index_covers [of i n] by (metis imageI)
  moreover have "fix_index n FINGER_TABLE_SIZE = next_finger_to_fix n"
    using assms by (simp add: fix_index_def chord_wf_def)
  ultimately show ?thesis by (cases n) (simp add: after_fixes_def)
qed

text \<open>A quiet period of 160 sleeps, at the end of which \<open>stop_maintenance\<close> clears \<open>running\<close>.\<close>

definition stopped :: "'w others" where
  "stopped = (\<lambda>(n, w). (n\<lparr>maintaining := False\<rparr>, w))"

definition full_turn :: "'w others list" where
  "full_turn = replicate (FINGER_TABLE_SIZE - 1) undisturbed @ [stopped]"

lemma full_turn_split: "j < FINGER_TABLE_SIZE \<Longrightarrow> \<exists>x rest. (full_turn :: 'w others list) = replicate j undisturbed @ x # rest"
proof -
  assume j: "j < FINGER_TABLE_SIZE"
  then have "(full_turn :: 'w others list) = replicate j undisturbed @ (replicate (FINGER_TABLE_SIZE - 1 - j) undisturbed @ [stopped])"
    by (simp add: full_turn_def replicate_add [symmetric])
  then show ?thesis by (cases "FINGER_TABLE_SIZE - 1 - j") auto
qed

lemma fix_fingers_complete:
  assumes "chord_wf n" "maintaining n" "\<forall>i < FINGER_TABLE_SIZE. finger_known n i"
  shows "fix_fingers_loop os full_turn (n, w) =
    (Inr (), (n\<lparr>finger_table := map (finger_of n) [0..<FINGER_TABLE_SIZE], maintaining := False\<rparr>, w))"
proof -
  let ?k = "FINGER_TABLE_SIZE - 1"
  have known: "finger_known n (fix_index n j)" for j using assms(3) fix_index_lt [of n j] by simp
  have "fix_fingers_loop os full_turn (after_fixes n 0, w) = fix_fingers_loop os [stopped] (after_fixes n (0 + ?k), w)"
    unfolding full_turn_def by (rule fix_rounds [OF assms(1,2)]) (simp add: known)
  also have "\<dots> = (Inr (), ((after_fixes n FINGER_TABLE_SIZE)\<lparr>maintaining := False\<rparr>, w))"
    unfolding fix_fingers_loop_def
    by (rule loop_interrupted [where ?n1.0 = "after_fixes n FINGER_TABLE_SIZE"])
       (use assms(2) fix_fingers_step [OF assms(1,2), of os ?k w] known in \<open>simp_all add: stopped_def\<close>)
  finally show ?thesis unfolding after_fixes_zero [OF assms(1)] after_all_fixes [OF assms(1)] by simp
qed

lemma fix_fingers_blocks:
  fixes w :: 'a
  assumes "chord_wf n" "maintaining n" "i < FINGER_TABLE_SIZE" "\<not> finger_known n i"
  shows "\<exists>n' w'. fix_fingers_loop os full_turn (n, w) = (Inl Deadlock, (n', w')) \<and> routing_locked n'"
proof -
  let ?P = "\<lambda>j. \<not> finger_known n (fix_index n (Suc j))"
  obtain j0 where "j0 \<in> {1..FINGER_TABLE_SIZE}" "fix_index n j0 = i" using fix_index_covers [OF assms(3), of n] by blast
  then have j0: "j0 - 1 < FINGER_TABLE_SIZE" "?P (j0 - 1)" using assms(4) by auto
  define j where "j = (LEAST j. ?P j)"
  have j: "?P j" "j < FINGER_TABLE_SIZE"
    using LeastI [of ?P, OF j0(2)] Least_le [of ?P, OF j0(2)] j0(1) unfolding j_def by auto
  have before: "\<forall>m \<in> {Suc 0..0 + j}. finger_known n (fix_index n m)"
  proof
    fix m assume m: "m \<in> {Suc 0..0 + j}"
    then have "m - 1 < j" by auto
    then have "\<not> ?P (m - 1)" unfolding j_def by (rule not_less_Least)
    then show "finger_known n (fix_index n m)" using m by simp
  qed
  obtain x rest where f: "(full_turn :: 'a others list) = replicate j undisturbed @ x # rest" using full_turn_split [OF j(2), where ?'w = 'a] by blast
  have "fix_fingers_loop os full_turn (after_fixes n 0, w) = fix_fingers_loop os (x # rest) (after_fixes n (0 + j), w)"
    unfolding f by (rule fix_rounds [OF assms(1,2) before])
  also have "\<dots> = (Inl Deadlock, ((after_fixes n j)\<lparr>next_finger_to_fix := fix_index n (Suc j), routing_locked := True\<rparr>, w))"
    unfolding fix_fingers_loop_def
    by (rule loop_fault) (use assms(2) fix_fingers_step [OF assms(1,2), of os j w] j(1) in simp_all)
  finally show ?thesis unfolding after_fixes_zero [OF assms(1)] by simp
qed

text \<open>
  C32. The finger loop on a node that nothing else changes makes a whole turn of 160 rounds only when each
  finger start lies in \<open>(predecessor, self]\<close> or in \<open>(self, successor]\<close>; then every entry of the finger table
  is the node itself or its successor, no other node is ever entered, and the loop ends with the
  sleep in which maintenance is stopped. As soon as one finger start lies outside, the loop
  blocks for ever within these 160 rounds with the routing mutex held, and every request that asks
  the node for its responsibility blocks too.
\<close>

theorem fix_fingers_loop_outcome:
  assumes "chord_wf n" "maintaining n"
  shows "if \<forall>i < FINGER_TABLE_SIZE. finger_known n i
    then fix_fingers_loop os full_turn (n, w) =
      (Inr (), (n\<lparr>finger_table := map (finger_of n) [0..<FINGER_TABLE_SIZE], maintaining := False\<rparr>, w))
    else \<exists>n' w'. fix_fingers_loop os full_turn (n, w) = (Inl Deadlock, (n', w')) \<and>
      (\<forall>h. is_responsible_for_key h (n', w') = (Inl Deadlock, (n', w')))"
  using fix_fingers_complete [OF assms, of os w] fix_fingers_blocks [OF assms, of _ os w] is_responsible_held
  by (metis (lifting))

definition three_ring_node :: ChordNode where
  "three_ring_node = (ring_node 1 2 3)\<lparr>maintaining := True\<rparr>"

lemma three_ring_node: "chord_wf three_ring_node" "maintaining three_ring_node" "\<not> finger_known three_ring_node 159"
proof -
  show "chord_wf three_ring_node"
    using chord_wf_new [of "''127.0.0.1''" 8001] by (simp add: three_ring_node_def ring_node_def chord_wf_def)
  show "maintaining three_ring_node" by (simp add: three_ring_node_def)
  have "hval (get_finger_start three_ring_node 159) = hval (mk_hash160 [130])"
    by (simp add: get_finger_start_def three_ring_node_def hval_add_power_of_two) (simp add: hval_def)
  then have "get_finger_start three_ring_node 159 = mk_hash160 [130]" by (simp only: hval_inj)
  then show "\<not> finger_known three_ring_node 159"
    by (simp add: finger_known_def responsible_def successor_covers_def three_ring_node_def in_range_def)
qed

theorem fix_fingers_loop_outcome_witness:
  "\<exists>n w. fix_fingers_loop (net_os []) full_turn (three_ring_node, example_net) = (Inl Deadlock, (n, w)) \<and>
     is_responsible_for_key (mk_hash160 [2]) (n, w) = (Inl Deadlock, (n, w))"
proof -
  have "\<not> (\<forall>i < FINGER_TABLE_SIZE. finger_known three_ring_node i)" using three_ring_node(3) by force
  then show ?thesis
    using fix_fingers_loop_outcome [OF three_ring_node(1,2), of "net_os []" example_net] by (simp only: if_False) blast
qed

end
