(* ===== verification/Tools.thy ===== *)
theory Tools
  imports Chord_Server Server_System
begin

text \<open>
  The two programs: the command line client of \<open>src/src/client_tool.cpp\<close> and the server of
  \<open>src/src/chord_server_main.cpp\<close>. \<open>main\<close> of the client takes the arguments and the operating system and returns the
  exit code, the lines written and the next world. The texts of the exceptions are an argument
  (\<open>what\<close>), because the C++ standard leaves them open. \<open>main\<close> of the server waits in a loop that looks at
  the server every tenth of a second; what the other threads and the signal handler do during a
  sleep is an argument, one function for each sleep, and a model that has used up its list
  of sleeps ends with \<open>Out_of_fuel\<close>.
\<close>

datatype line = Out string | Err string

section \<open>The client program\<close>

definition client_usage :: "string \<Rightarrow> line list" where
  "client_usage program_name = map Out
     [''Usage: '' @ program_name @ '' [options] command [arguments]'', '''', ''Options:'',
      ''  -h HOST    Server host (default: 127.0.0.1)'',
      ''  -p PORT    Server port (default: 8001)'', '''', ''Commands:'',
      ''  put KEY VALUE    Store a key-value pair'',
      ''  get KEY          Retrieve value for a key'',
      ''  delete KEY       Delete a key'',
      ''  ping             Check server connectivity'',
      ''  shutdown         Shutdown the server (admin command)'', '''', ''Examples:'',
      ''  '' @ program_name @ '' put mykey myvalue'',
      ''  '' @ program_name @ '' get mykey'',
      ''  '' @ program_name @ '' -h 192.168.1.100 -p 8080 get mykey'']"

text \<open>\<open>static_cast<uint16_t>(std::atoi(text))\<close>\<close>

definition port_arg :: "string \<Rightarrow> u16" where
  "port_arg s = word_of_int (atoi s)"

text \<open>The option loop: an exit code with the output, or host, port and the remaining arguments.\<close>

function client_options ::
  "string \<Rightarrow> string list \<Rightarrow> string \<Rightarrow> u16 \<Rightarrow> (int \<times> line list) + (string \<times> u16 \<times> string list)" where
  "client_options program_name args host p =
     (case args of
        [] \<Rightarrow> Inr (host, p, [])
      | option # rest \<Rightarrow>
          if take 1 option \<noteq> ''-'' then Inr (host, p, args)
          else if option = ''-h'' \<and> rest \<noteq> [] then client_options program_name (tl rest) (hd rest) p
          else if option = ''-p'' \<and> rest \<noteq> [] then client_options program_name (tl rest) host (port_arg (hd rest))
          else if option = ''--help'' then Inl (0, client_usage program_name)
          else Inl (1, Err (''Unknown option: '' @ option) # client_usage program_name))"
  by pat_completeness auto
termination
  by (relation "measure (\<lambda>(program_name, args, host, p). length args)") auto

declare client_options.simps [simp del]

text \<open>An operation that returns a flag: the lines and the exit code; an exception is caught and reported.\<close>

definition flag_result :: "(fault \<Rightarrow> string) \<Rightarrow> line \<Rightarrow> line \<Rightarrow> fault + bool \<Rightarrow> fault + (int \<times> line list)" where
  "flag_result what good bad r =
     (case r of
        Inl f \<Rightarrow> if std_exception f then Inr (1, [Err (''Error: '' @ what f)]) else Inl f
      | Inr ok \<Rightarrow> Inr (if ok then (0, [good]) else (1, [bad])))"

definition client_command ::
  "(fault \<Rightarrow> string) \<Rightarrow> 'w os \<Rightarrow> string \<Rightarrow> string \<Rightarrow> string list \<Rightarrow> Client \<Rightarrow> 'w
     \<Rightarrow> (fault + (int \<times> line list)) \<times> Client \<times> 'w" where
  "client_command what os program_name command args c w =
     (if command = ''put'' then
        (case args of
           key # value_str # _ \<Rightarrow>
             (case client_put os c key (bytes_of_string value_str) w of (r, c1, w1) \<Rightarrow>
              (flag_result what (Out ''OK'') (Err ''Failed to store key'') r, c1, w1))
         | _ \<Rightarrow> (Inr (1, [Err ''PUT requires KEY and VALUE arguments'']), c, w))
      else if command = ''get'' then
        (case args of
           key # _ \<Rightarrow>
             (case client_get os c key [] w of (r, c1, w1) \<Rightarrow>
              (flag_result what (Out (string_of_bytes (case r of Inl f \<Rightarrow> [] | Inr x \<Rightarrow> snd x)))
                 (Err ''Key not found'') (map_sum id fst r), c1, w1))
         | [] \<Rightarrow> (Inr (1, [Err ''GET requires KEY argument'']), c, w))
      else if command = ''delete'' then
        (case args of
           key # _ \<Rightarrow>
             (case client_remove os c key w of (r, c1, w1) \<Rightarrow>
              (flag_result what (Out ''OK'') (Err ''Key not found'') r, c1, w1))
         | [] \<Rightarrow> (Inr (1, [Err ''DELETE requires KEY argument'']), c, w))
      else if command = ''ping'' then
        (case client_ping os c w of (ok, c1, w1) \<Rightarrow>
          (flag_result what (Out ''PONG'') (Err ''Ping failed'') (Inr ok), c1, w1))
      else if command = ''shutdown'' then
        (case client_admin_shutdown os c w of (ok, c1, w1) \<Rightarrow>
          (flag_result what (Out ''Shutdown command sent successfully'')
             (Err ''Failed to send shutdown command'') (Inr ok), c1, w1))
      else (Inr (1, Err (''Unknown command: '' @ command) # client_usage program_name), c, w))"

text \<open>Every return after the construction of the client runs its destructor.\<close>

definition client_main ::
  "(fault \<Rightarrow> string) \<Rightarrow> 'w os \<Rightarrow> string \<Rightarrow> string list \<Rightarrow> 'w \<Rightarrow> (fault + (int \<times> line list)) \<times> 'w" where
  "client_main what os program_name args w =
     (case client_options program_name args ''127.0.0.1'' 8001 of
        Inl r \<Rightarrow> (Inr r, w)
      | Inr (host, p, []) \<Rightarrow> (Inr (1, client_usage program_name), w)
      | Inr (host, p, command # rest) \<Rightarrow>
          (case client_connect os (client_new host p) w of (ok, c, w1) \<Rightarrow>
           if \<not> ok
           then (Inr (1, [Err (''Failed to connect to server at '' @ host_port host p)]), snd (client_disconnect os c w1))
           else case client_command what os program_name command rest c w1 of (r, c2, w2) \<Rightarrow>
             (r, snd (client_disconnect os c2 w2))))"

section \<open>The server program\<close>

definition server_usage :: "string \<Rightarrow> line list" where
  "server_usage program_name = map Out
     [''Usage: '' @ program_name @ '' -p PORT [-j EXISTING_NODE]'', ''Options:'',
      ''  -p PORT          Server port (required)'',
      ''  -j NODE          Join existing ring via NODE (format: host:port)'',
      ''  -t THREADS       Number of worker threads (default: 8)'',
      ''  -h               Show this help message'', '''', ''Examples:'',
      ''  # Start first node (creates new ring)'',
      ''  '' @ program_name @ '' -p 8001'',
      ''  # Join existing ring'',
      ''  '' @ program_name @ '' -p 8002 -j 127.0.0.1:8001'']"

text \<open>\<open>static_cast<size_t>(std::atoi(text))\<close>\<close>

definition threads_arg :: "string \<Rightarrow> u64" where
  "threads_arg s = word_of_int (atoi s)"

function server_options ::
  "string \<Rightarrow> string list \<Rightarrow> u16 \<Rightarrow> u64 \<Rightarrow> string \<Rightarrow> (int \<times> line list) + (u16 \<times> u64 \<times> string)" where
  "server_options program_name args p threads join_node =
     (case args of
        [] \<Rightarrow> Inr (p, threads, join_node)
      | arg # rest \<Rightarrow>
          if arg = ''-p'' \<and> rest \<noteq> [] then server_options program_name (tl rest) (port_arg (hd rest)) threads join_node
          else if arg = ''-j'' \<and> rest \<noteq> [] then server_options program_name (tl rest) p threads (hd rest)
          else if arg = ''-t'' \<and> rest \<noteq> [] then server_options program_name (tl rest) p (threads_arg (hd rest)) join_node
          else if arg = ''-h'' then Inl (0, server_usage program_name)
          else Inl (1, Err (''Unknown option: '' @ arg) # server_usage program_name))"
  by pat_completeness auto
termination
  by (relation "measure (\<lambda>(program_name, args, p, threads, join_node). length args)") auto

declare server_options.simps [simp del]

text \<open>The variable \<open>shutdown_requested\<close> and the server \<open>g_server\<close> points to.\<close>

type_synonym 'w main_state = "bool \<times> ChordServer \<times> 'w"

datatype signal = SIGINT | SIGTERM | Other_signal

definition signal_handler :: "'w os \<Rightarrow> signal \<Rightarrow> ('w main_state, unit) prog" where
  "signal_handler os signal = (\<lambda>(requested, s, w).
     if signal = SIGINT \<or> signal = SIGTERM
     then case chord_server_stop os (s, w) of (r, (s1, w1)) \<Rightarrow> (r, (True, s1, w1))
     else (Inr (), (requested, s, w)))"

text \<open>The loop that waits for the end of the server.\<close>

fun wait_loop :: "('w main_state \<Rightarrow> 'w main_state) list \<Rightarrow> ('w main_state, line list) prog" where
  "wait_loop sleeps (requested, s, w) =
     (if requested then (Inr [], (requested, s, w))
      else if \<not> running (base s) then (Inr [Out ''Server has been stopped''], (requested, s, w))
      else case sleeps of
        [] \<Rightarrow> (Inl Out_of_fuel, (requested, s, w))
      | others # rest \<Rightarrow> wait_loop rest (others (requested, s, w)))"

declare wait_loop.simps [simp del]

text \<open>\<open>~ChordServer\<close>, the destructor of its node, and \<open>~Server\<close>.\<close>

definition chord_server_destroy :: "'w os \<Rightarrow> ('w, unit) sprog" where
  "chord_server_destroy os =
     bindP (\<lambda>(s, w). if chord_enabled s then on_node stop_maintenance (s, w) else (Inr (), (s, w))) (\<lambda>_.
     bindP (on_node stop_maintenance) (\<lambda>_. on_base (server_stop os)))"

text \<open>
  The state of \<open>main\<close> inside the \<open>try\<close> block: the lines written so far, the server and the world. The result
  \<open>Some code\<close> of a part means that \<open>main\<close> returns.
\<close>

type_synonym ('w, 'a) mprog = "(line list \<times> ChordServer \<times> 'w, 'a) prog"

definition say :: "line list \<Rightarrow> ('w, unit) mprog" where
  "say ls = modP (\<lambda>(out, s, w). (out @ ls, s, w))"

definition on_server :: "('w, 'a) sprog \<Rightarrow> ('w, 'a) mprog" where
  "on_server m = (\<lambda>(out, s, w). case m (s, w) of (r, (s1, w1)) \<Rightarrow> (r, (out, s1, w1)))"

definition banner :: "string \<Rightarrow> u16 \<Rightarrow> u64 \<Rightarrow> line list" where
  "banner host p threads =
     [Out ''FunnelKVS Chord Server'', Out (''Address: '' @ host_port host p),
      Out (''Worker threads: '' @ to_string_nat (unat threads))]"

definition enter_ring :: "string \<Rightarrow> ('w, int option) mprog" where
  "enter_ring join_node =
     (if join_node \<noteq> []
      then (case find_colon join_node of
              Some k \<Rightarrow>
                let join_host = take k join_node; join_port = port_arg (drop (Suc k) join_node) in
                bindP (say [Out (''Joining ring via: '' @ host_port join_host join_port)]) (\<lambda>_.
                bindP (on_server (join_ring join_host join_port)) (\<lambda>_. ret None))
            | None \<Rightarrow> bindP (say [Err ''Invalid join node format. Use host:port'']) (\<lambda>_. ret (Some 1)))
      else bindP (say [Out ''Creating new Chord ring'']) (\<lambda>_.
           bindP (on_server create_ring) (\<lambda>_. ret None)))"

definition wait_for_end :: "('w main_state \<Rightarrow> 'w main_state) list \<Rightarrow> ('w, unit) mprog" where
  "wait_for_end sleeps = (\<lambda>(out, s, w).
     case wait_loop sleeps (False, s, w) of (r, (requested, s1, w1)) \<Rightarrow>
     (case r of Inl f \<Rightarrow> (Inl f, (out, s1, w1)) | Inr ls \<Rightarrow> (Inr (), (out @ ls, s1, w1))))"

definition stop_if_running :: "'w os \<Rightarrow> ('w, unit) sprog" where
  "stop_if_running os = (\<lambda>(s, w). if running (base s) then chord_server_stop os (s, w) else (Inr (), (s, w)))"

definition try_block ::
  "'w os \<Rightarrow> string \<Rightarrow> u16 \<Rightarrow> u64 \<Rightarrow> string \<Rightarrow> ('w main_state \<Rightarrow> 'w main_state) list \<Rightarrow> ('w, int) mprog" where
  "try_block os host p threads join_node sleeps =
     bindP (say (banner host p threads)) (\<lambda>_.
     bindP (enter_ring join_node) (\<lambda>returned.
       case returned of
         Some code \<Rightarrow> ret code
       | None \<Rightarrow>
           bindP (say [Out ''Press Ctrl+C to stop'', Out []]) (\<lambda>_.
           bindP (on_server (chord_server_start os)) (\<lambda>_.
           bindP (wait_for_end sleeps) (\<lambda>_.
           bindP (on_server (stop_if_running os)) (\<lambda>_. ret 0))))))"

text \<open>
  The end of the scope of the server, then the exception handler. A thread that has blocked for
  ever does not get there.
\<close>

definition leave_try :: "(fault \<Rightarrow> string) \<Rightarrow> 'w os \<Rightarrow> ('w, int) mprog \<Rightarrow> ('w, int) mprog" where
  "leave_try what os m = (\<lambda>t.
     case m t of (r, t1) \<Rightarrow>
     (case r of
        Inl f \<Rightarrow>
          if std_exception f
          then bindP (on_server (chord_server_destroy os)) (\<lambda>_. bindP (say [Err (''Error: '' @ what f)]) (\<lambda>_. ret 1)) t1
          else (Inl f, t1)
      | Inr code \<Rightarrow> bindP (on_server (chord_server_destroy os)) (\<lambda>_. ret code) t1))"

definition server_main ::
  "(fault \<Rightarrow> string) \<Rightarrow> 'w os \<Rightarrow> string \<Rightarrow> string list \<Rightarrow> ('w main_state \<Rightarrow> 'w main_state) list \<Rightarrow> 'w
     \<Rightarrow> (fault + int) \<times> line list \<times> ChordServer option \<times> 'w" where
  "server_main what os program_name args sleeps w =
     (case server_options program_name args 0 8 [] of
        Inl (code, out) \<Rightarrow> (Inr code, out, None, w)
      | Inr (p, threads, join_node) \<Rightarrow>
          if p = 0 then (Inr 1, Err ''Error: Port is required'' # server_usage program_name, None, w)
          else case leave_try what os (try_block os ''127.0.0.1'' p threads join_node sleeps)
                      ([], chord_server_new ''127.0.0.1'' p, w) of
                 (r, (out, s, w1)) \<Rightarrow> (r, out, Some s, w1))"

section \<open>Options\<close>

lemma client_options_simps:
  "client_options prog [] host p = Inr (host, p, [])"
  "client_options prog (''-h'' # x # rest) host p = client_options prog rest x p"
  "client_options prog (''-p'' # x # rest) host p = client_options prog rest host (port_arg x)"
  "take 1 c \<noteq> ''-'' \<Longrightarrow> client_options prog (c # rest) host p = Inr (host, p, c # rest)"
  by (simp_all add: client_options.simps)

lemma server_options_simps:
  "server_options prog [] p t j = Inr (p, t, j)"
  "server_options prog (''-p'' # x # rest) p t j = server_options prog rest (port_arg x) t j"
  "server_options prog (''-j'' # x # rest) p t j = server_options prog rest p t x"
  "server_options prog (''-t'' # x # rest) p t j = server_options prog rest p (threads_arg x) j"
  by (simp_all add: server_options.simps)

lemma atoi_to_string: "n < 2 ^ 31 \<Longrightarrow> atoi (to_string_nat n) = int n"
  by (simp add: atoi_def strtol_to_string min_def max_def signed_of_nat signed_take_bit_int_eq_self)

lemma port_arg_to_string: "n < 2 ^ 31 \<Longrightarrow> port_arg (to_string_nat n) = of_nat n"
  by (simp add: port_arg_def atoi_to_string)

lemma port_arg_u16 [simp]: "port_arg (to_string_u16 p) = p"
  using unat_u16_lt [of p] by (simp add: to_string_u16_def port_arg_to_string)

section \<open>The client program as a map\<close>

text \<open>The command line of a call, and what the program reports for the result of a call.\<close>

fun command_args :: "call \<Rightarrow> string list" where
  "command_args (Put_call k v) = [''put'', k, string_of_bytes v]"
| "command_args (Get_call k) = [''get'', k]"
| "command_args (Remove_call k) = [''delete'', k]"

definition tool_args :: "string \<Rightarrow> u16 \<Rightarrow> call \<Rightarrow> string list" where
  "tool_args host p x = [''-h'', host, ''-p'', to_string_u16 p] @ command_args x"

definition tool_result :: "call \<Rightarrow> bool \<times> bytes \<Rightarrow> int \<times> line list" where
  "tool_result x r =
     (if fst r then (0, [Out (case x of Get_call k \<Rightarrow> string_of_bytes (snd r) | _ \<Rightarrow> ''OK'')])
      else (1, [Err (case x of Put_call k v \<Rightarrow> ''Failed to store key'' | _ \<Rightarrow> ''Key not found'')]))"

fun tool_session ::
  "(fault \<Rightarrow> string) \<Rightarrow> 'w os \<Rightarrow> string \<Rightarrow> string \<Rightarrow> u16 \<Rightarrow> call list \<Rightarrow> 'w \<Rightarrow> (fault + int \<times> line list) list \<times> 'w" where
  "tool_session what os prog host p [] w = ([], w)"
| "tool_session what os prog host p (x # xs) w =
     (case client_main what os prog (tool_args host p x) w of (r, w1) \<Rightarrow>
      case tool_session what os prog host p xs w1 of (rs, w2) \<Rightarrow> (r # rs, w2))"

lemma client_options_call:
  "client_options prog (tool_args host p x) h q = Inr (host, p, command_args x)"
  by (cases x) (simp_all add: tool_args_def client_options_simps)

lemma client_call_put:
  "client_call os c (Put_call k v) w = (Inr r, c', w') \<Longrightarrow> client_put os c k v w = (Inr (fst r), c', w')"
  by (cases "client_put os c k v w") (auto simp: map_sum_def split: sum.splits)

lemma client_call_remove:
  "client_call os c (Remove_call k) w = (Inr r, c', w') \<Longrightarrow> client_remove os c k w = (Inr (fst r), c', w')"
  by (cases "client_remove os c k w") (auto simp: map_sum_def split: sum.splits)

lemma client_command_call:
  assumes "client_call os c x w = (Inr r, c', w')"
  shows "client_command what os prog (hd (command_args x)) (tl (command_args x)) c w = (Inr (tool_result x r), c', w')"
proof (cases x)
  case (Put_call k v)
  then show ?thesis
    using client_call_put [of os c k v w r c' w'] assms
    by (simp add: client_command_def flag_result_def tool_result_def)
next
  case (Get_call k)
  then show ?thesis using assms by (simp add: client_command_def flag_result_def tool_result_def)
next
  case (Remove_call k)
  then show ?thesis
    using client_call_remove [of os c k w r c' w'] assms
    by (simp add: client_command_def flag_result_def tool_result_def)
qed

lemma command_args_split: "command_args x = hd (command_args x) # tl (command_args x)"
  by (cases x) simp_all

lemma client_main_call:
  assumes "nodes w (host, p) = Some s" "store_values_small (storage s)" "call_small x"
  shows "\<exists>w'. client_main what (net_os cs) prog (tool_args host p x) w =
      (Inr (tool_result x (fst (map_call (storage_map (storage s)) x))), w') \<and>
    nodes w' = (nodes w)((host, p) \<mapsto> server_step s (call_request x))"
proof -
  obtain c w1 w2 w3 where c: "client_connect (net_os cs) (client_new host p) w = (True, c, w1)"
    "client_call (net_os cs) c x w1 = (Inr (fst (map_call (storage_map (storage s)) x)), c, w2)"
    "snd (client_disconnect (net_os cs) c w2) = w3"
    "nodes w3 = (nodes w)((host, p) \<mapsto> server_step s (call_request x))"
    using net_single_call [OF assms, of cs] by (metis snd_conv)
  have "client_main what (net_os cs) prog (tool_args host p x) w =
      (Inr (tool_result x (fst (map_call (storage_map (storage s)) x))), w3)"
    unfolding client_main_def client_options_call
    by (subst command_args_split) (simp add: c client_command_call [OF c(2)])
  then show ?thesis using c(4) by blast
qed

text \<open>
  C3. The command line client implements a map: any sequence of runs of the program with the commands
  \<open>put\<close>, \<open>get\<close> and \<open>delete\<close> against a server, each run a process and a connection of its own, prints
  and returns exactly what the same operations on a map that starts as the server's store give.
\<close>

theorem client_tool_session:
  assumes "nodes w (host, p) = Some s" "store_values_small (storage s)" "\<forall>x \<in> set xs. call_small x"
  shows "fst (tool_session what (net_os cs) prog host p xs w) =
    map2 (\<lambda>x r. Inr (tool_result x r)) xs (map_session (storage_map (storage s)) xs)"
  using assms
proof (induction xs arbitrary: w s)
  case Nil
  then show ?case by simp
next
  case (Cons x xs)
  let ?s = "server_step s (call_request x)"
  have x: "call_small x" using Cons.prems(3) by simp
  obtain w1 where w1: "client_main what (net_os cs) prog (tool_args host p x) w =
      (Inr (tool_result x (fst (map_call (storage_map (storage s)) x))), w1)"
    "nodes w1 = (nodes w)((host, p) \<mapsto> ?s)"
    using client_main_call [OF Cons.prems(1,2) x] by blast
  have "store_values_small (storage ?s)" "storage_map (storage ?s) = snd (map_call (storage_map (storage s)) x)"
    using step_values_small [of s "[]" x] Cons.prems(2) x step_storage_map [of s "[]" x] by simp_all
  then show ?case using Cons.IH [of w1 ?s] w1 Cons.prems(3) by (simp add: case_prod_beta)
qed

theorem client_tool_session_witness:
  "fst (tool_session (\<lambda>_. ''stoi'') (net_os [2]) ''client'' ''127.0.0.1'' 8001
      [Put_call ''-k'' [118], Get_call ''-k'', Remove_call ''-k'', Get_call ''-k''] example_net) =
    [Inr (0, [Out ''OK'']), Inr (0, [Out ''v'']), Inr (0, [Out ''OK'']), Inr (1, [Err ''Key not found''])]"
  using client_tool_session [of example_net "''127.0.0.1''" 8001 "server_new 8001"
      "[Put_call ''-k'' [118], Get_call ''-k'', Remove_call ''-k'', Get_call ''-k'']" "\<lambda>_. ''stoi''" "[2]" "''client''"]
  by (simp add: example_net_def server_new_def store_values_small_def tool_result_def char_of_byte_def char_of_def bit_0)

section \<open>The life of the server program\<close>

lemma stop_maintenance_result:
  "\<exists>s'. on_node stop_maintenance (s, w) = (Inr (), (s', w)) \<and> \<not> maintaining (chord_node s') \<and> base s' = base s \<and>
     chord_enabled s' = chord_enabled s"
  by (auto simp: on_node_def stop_maintenance_def)

lemma server_stop_result:
  "\<exists>s' w'. on_base (server_stop os) (s, w) = (Inr (), (s', w')) \<and> \<not> running (base s') \<and> chord_node s' = chord_node s \<and>
     chord_enabled s' = chord_enabled s"
  by (auto simp: on_base_def server_stop_def Let_def)

lemma chord_server_destroy_result:
  "\<exists>s' w'. chord_server_destroy os (s, w) = (Inr (), (s', w')) \<and> \<not> running (base s') \<and> \<not> maintaining (chord_node s')"
proof -
  obtain s1 where s1: "(if chord_enabled s then on_node stop_maintenance (s, w) else (Inr (), (s, w))) = (Inr (), (s1, w))"
    using stop_maintenance_result [of s w] by (cases "chord_enabled s") auto
  obtain s2 where s2: "on_node stop_maintenance (s1, w) = (Inr (), (s2, w))" "\<not> maintaining (chord_node s2)"
    using stop_maintenance_result [of s1 w] by blast
  obtain s3 w3 where "on_base (server_stop os) (s2, w) = (Inr (), (s3, w3))" "\<not> running (base s3)" "chord_node s3 = chord_node s2"
    using server_stop_result [of os s2 w] by blast
  then show ?thesis using s1 s2 by (simp add: chord_server_destroy_def bindP_def)
qed

lemma chord_server_stop_result:
  "\<exists>s' w'. chord_server_stop os (s, w) = (Inr (), (s', w')) \<and> \<not> running (base s') \<and> \<not> chord_enabled s'"
proof -
  obtain s1 where s1: "disable_chord (s, w) = (Inr (), (s1, w))" "\<not> chord_enabled s1"
    using stop_maintenance_result [of s w] by (cases "chord_enabled s") (auto simp: disable_chord_def bindP_def server_mod_def)
  then show ?thesis using server_stop_result [of os s1 w] by (auto simp: chord_server_stop_def bindP_def)
qed

lemma leave_try_result:
  assumes "leave_try what os m t = (Inr code, (out, s, w))"
  shows "\<not> running (base s) \<and> \<not> maintaining (chord_node s)"
proof -
  obtain r o1 s1 w1 where m: "m t = (r, (o1, s1, w1))" by (metis prod_cases4)
  obtain s2 w2 where d: "chord_server_destroy os (s1, w1) = (Inr (), (s2, w2))" "\<not> running (base s2)" "\<not> maintaining (chord_node s2)"
    using chord_server_destroy_result [of os s1 w1] by blast
  then show ?thesis
    using assms m by (auto simp: leave_try_def bindP_def on_server_def say_def split: sum.splits if_splits)
qed



text \<open>The start of the program in a ring of its own, up to the waiting loop.\<close>

definition main_server :: "u16 \<Rightarrow> ChordServer" where
  "main_server p = (chord_server_new ''127.0.0.1'' p)
     \<lparr>chord_enabled := True, chord_node := (chord_node_new ''127.0.0.1'' p)\<lparr>maintaining := True\<rparr>\<rparr>"

lemma create_ring_new:
  "create_ring (chord_server_new ''127.0.0.1'' p, w) = (Inr (), (main_server p, w))"
proof -
  have "chord_create (chord_node_new a p, w) = (Inr (), (chord_node_new a p, w))" for a
    by (simp add: chord_create_def with_lock_def chord_node_new_def Let_def reset_single_def map_replicate_const)
  moreover have "\<not> maintaining (chord_node_new a p)" for a by (simp add: chord_node_new_def Let_def)
  ultimately show ?thesis
    by (simp add: create_ring_def bindP_def on_node_def enable_chord_def server_mod_def start_maintenance_def
        chord_server_new_def main_server_def)
qed

definition start_lines :: "u16 \<Rightarrow> line list" where
  "start_lines p = banner ''127.0.0.1'' p 8 @
     [Out ''Creating new Chord ring'', Out ''Press Ctrl+C to stop'', Out []]"

lemma try_block_alone:
  "try_block os ''127.0.0.1'' p 8 [] sleeps ([], chord_server_new ''127.0.0.1'' p, w) =
   (case setup_server_socket os (server_new p, w) of (r, (b, w1)) \<Rightarrow>
      (case r of
         Inl f \<Rightarrow> (Inl f, (start_lines p, (main_server p)\<lparr>base := b\<rparr>, w1))
       | Inr _ \<Rightarrow>
           bindP (wait_for_end sleeps) (\<lambda>_. bindP (on_server (stop_if_running os)) (\<lambda>_. ret 0))
             (start_lines p, (main_server p)\<lparr>base := b\<lparr>running := True\<rparr>\<rparr>, w1)))"
proof -
  have "base (main_server p) = server_new p" "chord_enabled (main_server p)"
    by (simp_all add: main_server_def chord_server_new_def)
  then show ?thesis
    by (simp add: try_block_def bindP_def say_def on_server_def enter_ring_def create_ring_new chord_server_start_def
        on_base_def server_start_def server_new_def start_lines_def split: prod.split sum.split)
qed

lemma wait_quiet:
  "\<not> requested \<Longrightarrow> running (base s) \<Longrightarrow>
     wait_loop (replicate k (\<lambda>t. t) @ others # rest) (requested, s, w) = wait_loop rest (others (requested, s, w))"
  by (induction k) (simp_all add: wait_loop.simps [of "_ # _"])



section \<open>Arguments out of range\<close>



text \<open>
  A thread count that is zero or not a number gives a server that accepts connections and never serves
  one: whatever happens, no handler starts, and every accepted descriptor stays in the queue.
\<close>

theorem zero_threads_serve_nothing:
  assumes "strtol_value 10 t = None \<or> strtol_value 10 t = Some 0"
    and "sys_run (sys_started (unat (threads_arg t))) es q"
  shows "started (pool_events es) = [] \<and> connections es = tasks (sys_pool q) @ in_hand (acceptor q)"
proof -
  have t: "unat (threads_arg t) = 0" using assms(1) by (auto simp: threads_arg_def atoi_def)
  then have s: "started (pool_events es) = []" using no_workers_no_service assms(2) by simp
  moreover have "accepted (pool_events es) = tasks (sys_pool q)"
    using pool_run_tasks [OF sys_run_pool [OF assms(2)]] s by (simp add: pool_new_def)
  ultimately show ?thesis using sys_run_connections [OF assms(2)] by simp
qed

theorem zero_threads_serve_nothing_witness:
  "started (pool_events [Acceptor, Accepted 5, Pool (Accept 5)]) = [] \<and> strtol_value 10 ''many'' = None"
proof -
  have s: "strtol_value 10 ''many'' = None"
    by (simp add: strtol_value_def isspace_def skip_hex_prefix_def digit_val_def)
  then have "unat (threads_arg ''many'') = 0" by (simp add: threads_arg_def atoi_def)
  then show ?thesis using zero_threads_serve_nothing [of "''many''"] example_accept s by simp
qed

end
