(* ===== verification/Chord_Cluster.thy ===== *)
theory Chord_Cluster
  imports Chord_Server
begin

text \<open>
  Chord servers that call one another. The world holds the servers by endpoint and the open connections
  with the bytes that arrived on them. A request that is sent on a connection is handled by the
  server at the other end, with \<open>handle_chord_operation\<close> of \<open>src/src/chord_server.cpp\<close>; the handler itself may open
  connections, and the requests on those occupy further workers. \<open>cluster_os k\<close> is the operating system
  when \<open>k\<close> such nested requests can be handled; beyond that no worker is free, the request stays in
  a queue, and the caller reads nothing until its timeout. The results hold for every \<open>k\<close>. Each
  handler works on the state its server had when the request arrived, and writes it back at the end;
  the statements are about properties that hold for every content of the stores.
\<close>

section \<open>The network\<close>

record cluster =
  servers :: "endpoint \<Rightarrow> ChordServer option"
  links :: "int \<Rightarrow> (endpoint \<times> bytes) option"
  next_fd :: int

definition cluster_answer :: "cluster os \<Rightarrow> endpoint \<Rightarrow> bytes \<Rightarrow> cluster \<Rightarrow> bytes \<times> cluster" where
  "cluster_answer os e d w =
     (case servers w e of
        None \<Rightarrow> ([], w)
      | Some s \<Rightarrow>
          (case decodeRequest d Request0 of (decoded, r) \<Rightarrow>
             if \<not> decoded then ([], w)
             else case handle_chord_operation os r (s, w) of (result, (s', w')) \<Rightarrow>
               ((case result of
                   Inl f \<Rightarrow> []
                 | Inr None \<Rightarrow> encodeResponse (fst (server_dispatch (storage (base s')) r))
                 | Inr (Some response) \<Rightarrow> encodeResponse response),
                w'\<lparr>servers := (servers w')(e \<mapsto> s')\<rparr>)))"

definition cluster_connect :: "int \<Rightarrow> string \<Rightarrow> u16 \<Rightarrow> cluster \<Rightarrow> (int \<times> bool) \<times> cluster" where
  "cluster_connect fd h p w =
     (case servers w (h, p) of
        None \<Rightarrow> ((-1, False), w)
      | Some s \<Rightarrow> ((0, False), w\<lparr>links := (links w)(fd \<mapsto> ((h, p), []))\<rparr>))"

definition cluster_send ::
  "(endpoint \<Rightarrow> bytes \<Rightarrow> cluster \<Rightarrow> bytes \<times> cluster) \<Rightarrow> int \<Rightarrow> bytes \<Rightarrow> cluster \<Rightarrow> int \<times> cluster" where
  "cluster_send answer fd d w =
     (case links w fd of
        None \<Rightarrow> (-1, w)
      | Some (e, inbox) \<Rightarrow>
          (case answer e d w of (bs, w') \<Rightarrow>
           (int (length d), w'\<lparr>links := (links w')(fd \<mapsto> (e, inbox @ bs))\<rparr>)))"

definition inbox :: "int \<Rightarrow> cluster \<Rightarrow> bytes" where
  "inbox fd w = (case links w fd of None \<Rightarrow> [] | Some (e, b) \<Rightarrow> b)"

definition cluster_recv :: "int \<Rightarrow> nat \<Rightarrow> cluster \<Rightarrow> bytes \<times> cluster" where
  "cluster_recv fd n w =
     (case links w fd of
        None \<Rightarrow> ([], w)
      | Some (e, b) \<Rightarrow> (take n b, w\<lparr>links := (links w)(fd \<mapsto> (e, drop n b))\<rparr>))"

definition cluster_calls :: "(endpoint \<Rightarrow> bytes \<Rightarrow> cluster \<Rightarrow> bytes \<times> cluster) \<Rightarrow> cluster os" where
  "cluster_calls answer =
    \<lparr>os_socket = (\<lambda>w. (next_fd w, w\<lparr>next_fd := next_fd w + 1\<rparr>)), os_getfl = (\<lambda>fd w. (0, w)),
     os_setfl = (\<lambda>fd f w. (0, w)), os_inet_pton = (\<lambda>h. 1), os_connect = cluster_connect,
     os_poll = (\<lambda>fd t w. (1, w)), os_so_error = (\<lambda>fd w. ((0, 0), w)), os_set_timeouts = (\<lambda>fd t w. w),
     os_send = cluster_send answer, os_recv = cluster_recv,
     os_close = (\<lambda>fd w. w\<lparr>links := (links w)(fd := None)\<rparr>),
     os_reuseaddr = (\<lambda>fd w. (0, w)), os_bind = (\<lambda>fd p w. (0, w)), os_listen = (\<lambda>fd n w. (0, w)),
     os_shutdown = (\<lambda>fd w. w), os_now = (\<lambda>w. (0, w))\<rparr>"

fun cluster_os :: "nat \<Rightarrow> cluster os" where
  "cluster_os 0 = cluster_calls (\<lambda>e d w. ([], w))"
| "cluster_os (Suc k) = cluster_calls (cluster_answer (cluster_os k))"

definition answering :: "nat \<Rightarrow> endpoint \<Rightarrow> bytes \<Rightarrow> cluster \<Rightarrow> bytes \<times> cluster" where
  "answering k = (case k of 0 \<Rightarrow> (\<lambda>e d w. ([], w)) | Suc j \<Rightarrow> cluster_answer (cluster_os j))"

lemma cluster_os_calls: "cluster_os k = cluster_calls (answering k)"
  by (cases k) (simp_all add: answering_def)

lemma cluster_select [simp]:
  "os_send (cluster_os k) = cluster_send (answering k)" "os_recv (cluster_os k) = cluster_recv"
  "os_close (cluster_os k) fd w = w\<lparr>links := (links w)(fd := None)\<rparr>" "os_now (cluster_os k) w = (0, w)"
  unfolding cluster_os_calls by (simp_all add: cluster_calls_def)

interpretation link: recv_os "cluster_os k" fd "inbox fd" for k fd
proof unfold_locales
  fix n :: nat and w :: cluster
  assume "0 < n" "inbox fd w \<noteq> []"
  then show "\<exists>j > 0. j \<le> n \<and> j \<le> length (inbox fd w) \<and> fst (os_recv (cluster_os k) fd n w) = take j (inbox fd w) \<and>
      inbox fd (snd (os_recv (cluster_os k) fd n w)) = drop j (inbox fd w)"
    by (intro exI [of _ "min n (length (inbox fd w))"])
       (auto simp: inbox_def cluster_recv_def min_def split: option.splits)
qed (auto simp: inbox_def cluster_recv_def split: option.splits)

section \<open>A ring of two nodes\<close>

text \<open>The server of node \<open>a\<close> when the ring consists of \<open>a\<close> and \<open>b\<close> and every pointer is right.\<close>

definition peer_server :: "NodeInfo \<Rightarrow> NodeInfo \<Rightarrow> ChordServer \<Rightarrow> bool" where
  "peer_server a b s \<longleftrightarrow> chord_enabled s \<and>
     (let n = chord_node s in
      \<not> routing_locked n \<and> self_info n = a \<and> predecessor n = Some b \<and> successor_list n ! 0 = Some b \<and>
      replica_nodes n \<noteq> [] \<and> set (replica_nodes n) \<subseteq> {Some b} \<and>
      \<not> enable_async_replication (rm_config (replication_manager n)))"

definition node_ok :: "NodeInfo \<Rightarrow> bool" where
  "node_ok a \<longleftrightarrow> CHR '':'' \<notin> set (ni_address a) \<and> ni_port a \<noteq> 0 \<and> length (node_key a) < 2 ^ 32"

definition two_ring :: "NodeInfo \<Rightarrow> NodeInfo \<Rightarrow> cluster \<Rightarrow> bool" where
  "two_ring a b w \<longleftrightarrow> node_ok a \<and> node_ok b \<and> ni_id a \<noteq> ni_id b \<and> node_endpoint a \<noteq> node_endpoint b \<and> 0 \<le> next_fd w \<and>
     (\<exists>s. servers w (node_endpoint a) = Some s \<and> peer_server a b s) \<and>
     (\<exists>s. servers w (node_endpoint b) = Some s \<and> peer_server b a s)"

lemma two_ring_sym: "two_ring a b w \<longleftrightarrow> two_ring b a w"
  by (auto simp: two_ring_def)

lemma two_ring_links [simp]: "two_ring a b (w\<lparr>links := l\<rparr>) \<longleftrightarrow> two_ring a b w"
  by (simp add: two_ring_def)

lemma two_ring_update:
  assumes "two_ring a b w" "peer_server a b s"
  shows "two_ring a b (w\<lparr>servers := (servers w)(node_endpoint a \<mapsto> s)\<rparr>)"
  using assms by (auto simp: two_ring_def)

lemma two_ring_recv: "two_ring a b w \<Longrightarrow> two_ring a b (snd (cluster_recv fd n w))"
  by (auto simp: cluster_recv_def split: option.splits)

lemma next_fd_recv [simp]: "next_fd (snd (cluster_recv fd n w)) = next_fd w"
  by (auto simp: cluster_recv_def split: option.splits)

section \<open>Connections and exchanges\<close>

lemma connect_peer:
  assumes "two_ring a b w" "m = a \<or> m = b"
  shows "\<exists>c w1. client_connect (cluster_os k) (client_new (ni_address m) (ni_port m)) w = (True, c, w1) \<and>
    connected c \<and> two_ring a b w1 \<and> next_fd w1 = next_fd w + 1 \<and> links w1 (socket_fd c) = Some (node_endpoint m, [])"
proof -
  have "\<exists>s. servers w (ni_address m, ni_port m) = Some s"
    using assms by (auto simp: two_ring_def node_endpoint_def)
  then show ?thesis
    using assms(1)
    by (auto simp: client_connect_def client_new_def cluster_os_calls cluster_calls_def cluster_connect_def
        node_endpoint_def two_ring_def)
qed

lemma send_whole:
  assumes "links w fd = Some (e, [])" "answering k e (encodeRequest r) w = (bs, w')"
  shows "send_loop (cluster_os k) fd (encodeRequest r) 0 w = (True, w'\<lparr>links := (links w')(fd \<mapsto> (e, bs))\<rparr>)"
proof -
  have "encodeRequest r \<noteq> []" by (simp add: encodeRequest_append)
  then show ?thesis
    using assms by (subst send_loop.simps) (simp add: cluster_send_def send_loop.simps)
qed

lemma exchange_answered:
  assumes "connected c" "links w (socket_fd c) = Some (e, [])"
    and "answering k e (encodeRequest r) w = (encodeResponse resp, w')" "response_wf resp" "two_ring a b w'"
  shows "\<exists>w2. client_send_request (cluster_os k) c r Response0 w = (True, resp, c, w2) \<and>
    two_ring a b w2 \<and> next_fd w2 = next_fd w'"
proof -
  let ?I = "\<lambda>v. two_ring a b v \<and> next_fd v = next_fd w'"
  let ?w1 = "w'\<lparr>links := (links w')(socket_fd c \<mapsto> (e, encodeResponse resp))\<rparr>"
  have "inbox (socket_fd c) ?w1 = encodeResponse resp @ []" by (simp add: inbox_def)
  then show ?thesis
    using link.exchange_reply [where k = k and I = ?I, OF assms(1) refl send_whole [OF assms(2,3)] _ assms(4)] assms(5)
    by (auto simp: two_ring_recv)
qed

lemma exchange_unanswered:
  assumes "connected c" "links w (socket_fd c) = Some (e, [])"
    and "answering k e (encodeRequest r) w = ([], w')" "two_ring a b w'"
  shows "\<exists>x c' w2. client_send_request (cluster_os k) c r Response0 w = (False, x, c', w2) \<and>
    \<not> (connected c' \<and> 0 \<le> socket_fd c') \<and> two_ring a b w2 \<and> next_fd w2 = next_fd w'"
proof -
  let ?fd = "socket_fd c"
  let ?I = "\<lambda>v. two_ring a b v \<and> next_fd v = next_fd w'"
  let ?w1 = "w'\<lparr>links := (links w')(?fd \<mapsto> (e, []))\<rparr>"
  have "?I (snd (snd (recv_loop (cluster_os k) ?fd 5 [] ?w1)))"
    by (rule recv_loop_frame [where I = ?I]) (use assms(4) in \<open>auto simp: two_ring_recv\<close>)
  moreover obtain g w2 where g: "recv_buffer (cluster_os k) ?fd 5 ?w1 = (False, g, w2)"
    using link.recv_buffer_short [of ?fd ?w1 5 k] by (auto simp: inbox_def)
  ultimately have w2: "?I w2" by (auto simp: recv_buffer_def split: prod.splits)
  then show ?thesis
    using assms(1) g send_whole [OF assms(2,3)]
    by (auto simp: client_send_request_def client_send_data_def client_receive_data_def client_abort_def client_disconnect_def)
qed

section \<open>The two servers\<close>

abbreviation put_request :: "string \<Rightarrow> bytes \<Rightarrow> Request" where
  "put_request key v \<equiv> \<lparr>req_opcode = PUT, req_key = bytes_of_string key, req_value = v\<rparr>"

text \<open>A put to node \<open>m\<close> fails when at most \<open>k\<close> requests can be nested, and opens more than \<open>k\<close> connections.\<close>

definition put_fails :: "NodeInfo \<Rightarrow> NodeInfo \<Rightarrow> string \<Rightarrow> bytes \<Rightarrow> nat \<Rightarrow> NodeInfo \<Rightarrow> bool" where
  "put_fails a b key v k m \<longleftrightarrow>
     (\<forall>w. two_ring a b w \<longrightarrow>
        (\<exists>w'. send_replication_request (cluster_os k) m ''PUT'' key v w = (False, w') \<and>
           two_ring a b w' \<and> next_fd w + int k < next_fd w'))"

lemma put_failsD:
  "put_fails a b key v k m \<Longrightarrow> two_ring a b w \<Longrightarrow>
     \<exists>w'. send_replication_request (cluster_os k) m ''PUT'' key v w = (False, w') \<and>
       two_ring a b w' \<and> next_fd w + int k < next_fd w'"
  unfolding put_fails_def by blast

lemma replicate_loop_fails:
  assumes "put_fails a b key v k b" "two_ring a b w" "set rs \<subseteq> {Some b}" "rs \<noteq> []"
  shows "\<exists>w'. replicate_loop (cluster_os k) ''PUT'' key v rs i w = (i, w') \<and> two_ring a b w' \<and>
    next_fd w + int k < next_fd w'"
  using assms(2-4)
proof (induction rs arbitrary: w)
  case (Cons r rs)
  have r: "r = Some b" "ni_port b \<noteq> 0" using Cons.prems by (auto simp: two_ring_def node_ok_def)
  obtain w1 where w1: "send_replication_request (cluster_os k) b ''PUT'' key v w = (False, w1)" "two_ring a b w1"
    "next_fd w + int k < next_fd w1"
    using put_failsD [OF assms(1) Cons.prems(1)] by blast
  show ?case
  proof (cases "rs = []")
    case True
    then show ?thesis using w1 r by simp
  next
    case False
    then obtain w2 where "replicate_loop (cluster_os k) ''PUT'' key v rs i w1 = (i, w2)" "two_ring a b w2"
      "next_fd w1 + int k < next_fd w2"
      using Cons.IH [OF w1(2)] Cons.prems(2) by auto
    then show ?thesis using w1 r by auto
  qed
qed simp

lemma replicate_put_fails:
  assumes "put_fails a b key v k b" "two_ring a b w" "peer_server a b s"
  shows "\<exists>rm w'. replicate_put (cluster_os k) key v (replica_nodes (chord_node s)) (replication_manager (chord_node s)) w =
      (False, rm, w') \<and> rm_config rm = rm_config (replication_manager (chord_node s)) \<and> two_ring a b w' \<and>
      next_fd w + int k < next_fd w'"
proof -
  let ?n = "chord_node s"
  let ?rs = "replica_nodes ?n" and ?rm = "replication_manager ?n"
  let ?q = "required_replications ?rm ?rs"
  have rs: "?rs \<noteq> []" "set ?rs \<subseteq> {Some b}" "\<not> enable_async_replication (rm_config ?rm)"
    using assms(3) by (simp_all add: peer_server_def Let_def)
  have q: "1 \<le> ?q"
    using replica_nodes_factor [OF rs(1)] rs(1) by (cases ?rs) (auto simp: required_replications_def get_replication_factor_def)
  then have t: "take (nat ?q) ?rs \<noteq> []" "set (take (nat ?q) ?rs) \<subseteq> {Some b}"
    using rs set_take_subset [of "nat ?q" ?rs] by auto
  obtain w' where "replicate_loop (cluster_os k) ''PUT'' key v (take (nat ?q) ?rs) 0 w = (0, w')" "two_ring a b w'"
    "next_fd w + int k < next_fd w'"
    using replicate_loop_fails [OF assms(1,2) t(2,1), of 0] by blast
  then show ?thesis using rs(3) q by (simp add: replicate_put_def Let_def put_timestamp_def)
qed

lemma peer_server_frame:
  "peer_server a b s \<Longrightarrow> rm_config rm = rm_config (replication_manager (chord_node s)) \<Longrightarrow>
     peer_server a b (s\<lparr>chord_node := (chord_node s)\<lparr>local_storage := st, replication_manager := rm\<rparr>\<rparr>)"
  by (simp add: peer_server_def Let_def)

lemma put_at_owner:
  assumes "put_fails a b key v k b" "two_ring a b w" "peer_server a b s"
    and "in_range (SHA1_hash key) (ni_id b) (ni_id a) True"
  shows "\<exists>s' w'. handle_chord_operation (cluster_os k) (put_request key v) (s, w) =
      (Inr (Some (status_response ERROR)), (s', w')) \<and> peer_server a b s' \<and> two_ring a b w' \<and>
      next_fd w + int k < next_fd w'"
proof -
  let ?n = "chord_node s"
  have n: "\<not> routing_locked ?n" "responsible ?n (SHA1_hash key)" "chord_enabled s" "replica_nodes ?n \<noteq> []"
    using assms(3,4) by (simp_all add: peer_server_def Let_def responsible_def)
  obtain rm w' where rm: "replicate_put (cluster_os k) key v (replica_nodes ?n) (replication_manager ?n) w = (False, rm, w')"
    "rm_config rm = rm_config (replication_manager ?n)" "two_ring a b w'" "next_fd w + int k < next_fd w'"
    using replicate_put_fails [OF assms(1-3)] by blast
  let ?st = "snd (storage_remove (storage_put (local_storage ?n) key v) key)"
  have "store_key (cluster_os k) key v (?n, w) = (Inr False, (?n\<lparr>local_storage := ?st, replication_manager := rm\<rparr>, w'))"
    using store_key_owner [OF n(1,2), of "cluster_os k" v w] n(4) rm(1) by (simp add: Let_def)
  moreover have "on_node (is_responsible_for_key (SHA1_hash key)) (s, w) = (Inr True, (s, w))"
    using n by (simp add: on_node_def is_responsible_free)
  ultimately have "handle_data (cluster_os k) (put_request key v) (s, w) = (Inr (status_response ERROR),
      (s\<lparr>chord_node := ?n\<lparr>local_storage := ?st, replication_manager := rm\<rparr>\<rparr>, w'))"
    by (simp add: handle_data_def handle_local_def bindP_def Let_def on_node_def)
  then show ?thesis
    using handle_chord_data [of s "put_request key v" "cluster_os k" w] n(3) rm(3,4) peer_server_frame [OF assms(3) rm(2), of ?st]
    by (auto simp: bindP_def)
qed

lemma put_at_other:
  assumes "peer_server b a s" "ni_id a \<noteq> ni_id b" "in_range (SHA1_hash key) (ni_id b) (ni_id a) True"
  shows "handle_chord_operation os (put_request key v) (s, w) = (Inr (Some (node_response a REDIRECT)), (s, w))"
proof -
  let ?n = "chord_node s"
  have n: "\<not> routing_locked ?n" "chord_enabled s" "successor_list ?n ! 0 = Some a" "self_info ?n = b" "predecessor ?n = Some a"
    using assms(1) by (simp_all add: peer_server_def Let_def)
  have "\<not> in_range (SHA1_hash key) (ni_id a) (ni_id b) True"
    using assms(2,3) by (auto simp: in_range_def split: if_splits)
  then have "\<not> responsible ?n (SHA1_hash key)" "successor_covers ?n (SHA1_hash key)"
    using n assms(3) by (simp_all add: responsible_def successor_covers_def)
  then show ?thesis
    using handle_chord_data [of s "put_request key v" os w] n handle_data_foreign [of s "put_request key v" os w]
    by (simp add: bindP_def)
qed

section \<open>No put succeeds\<close>

definition put_small :: "string \<Rightarrow> bytes \<Rightarrow> bool" where
  "put_small key v \<longleftrightarrow> length key < 2 ^ 32 \<and> length v < 2 ^ 32"

lemma decode_put: "put_small key v \<Longrightarrow> decodeRequest (encodeRequest (put_request key v)) Request0 = (True, put_request key v)"
  using req_codec.round_trip [of "put_request key v" Request0]
  by (simp add: put_small_def request_wf_def opcode_wf_def opcode_of_byte_def named_opcodes_def)

lemma answer_at_owner:
  assumes "put_fails a b key v j b" "two_ring a b w" "put_small key v" "in_range (SHA1_hash key) (ni_id b) (ni_id a) True"
  shows "\<exists>w'. answering (Suc j) (node_endpoint a) (encodeRequest (put_request key v)) w =
      (encodeResponse (status_response ERROR), w') \<and> two_ring a b w' \<and> next_fd w + int j < next_fd w'"
proof -
  obtain s where s: "servers w (node_endpoint a) = Some s" "peer_server a b s" using assms(2) by (auto simp: two_ring_def)
  obtain s' w' where h: "handle_chord_operation (cluster_os j) (put_request key v) (s, w) =
      (Inr (Some (status_response ERROR)), (s', w'))" "peer_server a b s'" "two_ring a b w'" "next_fd w + int j < next_fd w'"
    using put_at_owner [OF assms(1,2) s(2) assms(4)] by blast
  then show ?thesis
    using s decode_put [OF assms(3)] two_ring_update [OF h(3,2)] by (simp add: answering_def cluster_answer_def)
qed

lemma owner_exchange:
  assumes "k = Suc j \<Longrightarrow> put_fails a b key v j b" "k = 0 \<or> k = Suc j" "two_ring a b w" "put_small key v"
    and "in_range (SHA1_hash key) (ni_id b) (ni_id a) True" "connected c" "links w (socket_fd c) = Some (node_endpoint a, [])"
  shows "\<exists>sent resp c' w'. client_send_request (cluster_os k) c (put_request key v) Response0 w = (sent, resp, c', w') \<and>
    (sent \<longrightarrow> resp = status_response ERROR) \<and> two_ring a b w' \<and> next_fd w + int k \<le> next_fd w'"
  using assms(2)
proof
  assume k: "k = 0"
  then have "answering k (node_endpoint a) (encodeRequest (put_request key v)) w = ([], w)" by (simp add: answering_def)
  then show ?thesis using exchange_unanswered [OF assms(6,7) _ assms(3)] k by fastforce
next
  assume k: "k = Suc j"
  obtain w' where "answering k (node_endpoint a) (encodeRequest (put_request key v)) w =
      (encodeResponse (status_response ERROR), w')" "two_ring a b w'" "next_fd w + int j < next_fd w'"
    using answer_at_owner [OF assms(1) [OF k] assms(3,4,5)] k by blast
  moreover have "response_wf (status_response ERROR)"
    by (simp add: response_wf_def status_response_def status_wf_def status_of_byte_def)
  ultimately show ?thesis using exchange_answered [OF assms(6,7)] k by fastforce
qed

lemma put_exchange:
  assumes "k = Suc j \<Longrightarrow> put_fails a b key v j b" "k = 0 \<or> k = Suc j" "two_ring a b w" "put_small key v"
    and "in_range (SHA1_hash key) (ni_id b) (ni_id a) True" "connected c" "links w (socket_fd c) = Some (node_endpoint m, [])"
    and "m = a \<or> m = b"
  shows "\<exists>c' w'. client_put (cluster_os k) c key v w = (Inr False, c', w') \<and> two_ring a b w' \<and>
    next_fd w + int k \<le> next_fd w'"
proof (cases "m = a \<or> k = 0")
  case True
  have "\<exists>sent resp c' w'. client_send_request (cluster_os k) c (put_request key v) Response0 w = (sent, resp, c', w') \<and>
    (sent \<longrightarrow> resp = status_response ERROR) \<and> two_ring a b w' \<and> next_fd w + int k \<le> next_fd w'"
  proof (cases "m = a")
    case True
    then show ?thesis using owner_exchange [OF assms(1-6)] assms(7) by simp
  next
    case False
    then have k: "k = 0" using True by simp
    then have "answering k (node_endpoint m) (encodeRequest (put_request key v)) w = ([], w)" by (simp add: answering_def)
    then show ?thesis using exchange_unanswered [OF assms(6,7) _ assms(3)] k by fastforce
  qed
  then show ?thesis by (auto simp: client_put_def client_exchange_def status_response_def)
next
  case False
  then have m: "m = b" and k: "k = Suc j" using assms(2,8) by auto
  obtain s where s: "servers w (node_endpoint b) = Some s" "peer_server b a s" using assms(3) by (auto simp: two_ring_def)
  have ids: "ni_id a \<noteq> ni_id b" and a: "node_ok a" using assms(3) by (simp_all add: two_ring_def)
  have "answering k (node_endpoint m) (encodeRequest (put_request key v)) w = (encodeResponse (node_response a REDIRECT), w)"
    using s(1) decode_put [OF assms(4)] put_at_other [OF s(2) ids assms(5), of "cluster_os j" v w] k m
    by (simp add: answering_def cluster_answer_def fun_upd_idem)
  moreover have "response_wf (node_response a REDIRECT)"
    using a by (simp add: response_wf_def node_response_def node_ok_def status_wf_def status_of_byte_def)
  ultimately obtain w2 where w2: "client_send_request (cluster_os k) c (put_request key v) Response0 w =
      (True, node_response a REDIRECT, c, w2)" "two_ring a b w2" "next_fd w2 = next_fd w"
    using exchange_answered [OF assms(6,7)] assms(3) by blast
  obtain c3 w3 where c3: "client_connect (cluster_os k) (client_new (ni_address a) (ni_port a)) w2 = (True, c3, w3)"
    "connected c3" "two_ring a b w3" "next_fd w3 = next_fd w2 + 1" "links w3 (socket_fd c3) = Some (node_endpoint a, [])"
    using connect_peer [OF w2(2), of a k] by blast
  obtain sent resp c4 w4 where e: "client_send_request (cluster_os k) c3 (put_request key v) Response0 w3 = (sent, resp, c4, w4)"
    "sent \<longrightarrow> resp = status_response ERROR" "two_ring a b w4" "next_fd w3 + int k \<le> next_fd w4"
    using owner_exchange [OF assms(1,2) c3(3) assms(4,5) c3(2,5)] by blast
  have p: "find_colon (node_key a) = Some (length (ni_address a))"
    using a by (simp add: node_ok_def node_key_def find_colon_host_port)
  let ?w5 = "snd (client_disconnect (cluster_os k) c4 w4)"
  have "client_follow_redirect (cluster_os k) (put_request key v) (resp_value (node_response a REDIRECT)) w2 =
      (Inr (if sent then Some resp else None), ?w5)"
    using c3(1) e(1) p by (simp add: client_follow_redirect_def node_response_def node_key_def)
  moreover have "two_ring a b ?w5" "next_fd ?w5 = next_fd w4" using e(3) by (simp_all add: client_disconnect_def)
  moreover have "node_key a \<noteq> []" by (simp add: node_key_def)
  ultimately show ?thesis
    using w2 e(2,4) c3(4)
    by (auto simp: client_put_def client_exchange_def node_response_def status_response_def)
qed

lemma put_fails_step:
  assumes "k = Suc j \<Longrightarrow> put_fails a b key v j b" "k = 0 \<or> k = Suc j" "put_small key v"
    and "in_range (SHA1_hash key) (ni_id b) (ni_id a) True" "m = a \<or> m = b"
  shows "put_fails a b key v k m"
  unfolding put_fails_def
proof (intro allI impI)
  fix w assume w: "two_ring a b w"
  obtain c w1 where c: "client_connect (cluster_os k) (client_new (ni_address m) (ni_port m)) w = (True, c, w1)"
    "connected c" "two_ring a b w1" "next_fd w1 = next_fd w + 1" "links w1 (socket_fd c) = Some (node_endpoint m, [])"
    using connect_peer [OF w assms(5), of k] by blast
  obtain c' w' where p: "client_put (cluster_os k) c key v w1 = (Inr False, c', w')" "two_ring a b w'"
    "next_fd w1 + int k \<le> next_fd w'"
    using put_exchange [OF assms(1,2) c(3) assms(3,4) c(2,5) assms(5)] by blast
  show "\<exists>w'. send_replication_request (cluster_os k) m ''PUT'' key v w = (False, w') \<and> two_ring a b w' \<and>
      next_fd w + int k < next_fd w'"
    using c(1,4) p by (simp add: send_replication_request_def client_disconnect_def)
qed

lemma put_fails_always:
  assumes "put_small key v" "in_range (SHA1_hash key) (ni_id b) (ni_id a) True" "m = a \<or> m = b"
  shows "put_fails a b key v k m"
  using assms(3)
proof (induction k arbitrary: m)
  case 0
  show ?case by (rule put_fails_step [OF _ _ assms(1,2) 0]) simp_all
next
  case (Suc k)
  show ?case by (rule put_fails_step [OF _ _ assms(1,2) Suc.prems, of _ k]) (simp_all add: Suc.IH)
qed

text \<open>
  C10. In a ring of two nodes with every predecessor and successor pointer right and synchronous replication,
  no put succeeds, whichever node the client asks and however many nested requests the workers can
  take. The owner replicates to the other node with an ordinary PUT; the other node is not
  responsible and redirects it to the owner, which stores and replicates again. The recursion ends
  only when no worker is free: a put opens more connections than there are workers, and then fails.
\<close>

theorem two_node_ring_rejects_puts:
  assumes "two_ring a b w" "put_small key v" "m = a \<or> m = b"
  shows "\<exists>c w1 c' w2. client_connect (cluster_os k) (client_new (ni_address m) (ni_port m)) w = (True, c, w1) \<and>
    client_put (cluster_os k) c key v w1 = (Inr False, c', w2) \<and> next_fd w + int k < next_fd w2"
proof -
  have ring: "two_ring b a w" "ni_id a \<noteq> ni_id b" using assms(1) two_ring_sym by (auto simp: two_ring_def)
  have run: "\<exists>c w1 c' w2. client_connect (cluster_os k) (client_new (ni_address m) (ni_port m)) w = (True, c, w1) \<and>
      client_put (cluster_os k) c key v w1 = (Inr False, c', w2) \<and> next_fd w + int k < next_fd w2"
    if r: "two_ring x y w" and o: "in_range (SHA1_hash key) (ni_id y) (ni_id x) True" and m: "m = x \<or> m = y" for x y
  proof -
    obtain c w1 where c: "client_connect (cluster_os k) (client_new (ni_address m) (ni_port m)) w = (True, c, w1)"
      "connected c" "two_ring x y w1" "next_fd w1 = next_fd w + 1" "links w1 (socket_fd c) = Some (node_endpoint m, [])"
      using connect_peer [OF r m, of k] by blast
    have "k = 0 \<or> k = Suc (k - 1)" by arith
    from put_exchange [OF put_fails_always [OF assms(2) o] this c(3) assms(2) o c(2,5) m]
    show ?thesis using c(1,4) by fastforce
  qed
  have "in_range (SHA1_hash key) (ni_id b) (ni_id a) True \<or> in_range (SHA1_hash key) (ni_id a) (ni_id b) True"
    using ring(2) by (auto simp: in_range_def split: if_splits)
  then show ?thesis using run [OF assms(1)] run [OF ring(1)] assms(3) by blast
qed

text \<open>A concrete ring for the example: two nodes with identifiers 1 and 2.\<close>

definition duo_server :: "byte \<Rightarrow> byte \<Rightarrow> ChordServer" where
  "duo_server i j = (chord_server_new ''h'' (ucast i))\<lparr>chord_enabled := True, chord_node := ring_node j i j\<rparr>"

definition duo_node :: "byte \<Rightarrow> NodeInfo" where
  "duo_node i = \<lparr>ni_id = mk_hash160 [i], ni_address = ''127.0.0.1'', ni_port = ucast i\<rparr>"

definition duo_cluster :: cluster where
  "duo_cluster = \<lparr>servers = [node_endpoint (duo_node 1) \<mapsto> duo_server 1 2, node_endpoint (duo_node 2) \<mapsto> duo_server 2 1],
     links = (\<lambda>_. None), next_fd = 3\<rparr>"

lemma duo_peer: "i \<noteq> j \<Longrightarrow> peer_server (duo_node i) (duo_node j) (duo_server i j)"
  by (auto simp: peer_server_def duo_server_def duo_node_def ring_node_def chord_node_new_def Let_def replica_nodes_def
      get_replication_factor_def replication_manager_new_def replication_config_default_def numeral_2_eq_2)

lemma duo_ring: "two_ring (duo_node 1) (duo_node 2) duo_cluster"
  using duo_peer [of 1 2] duo_peer [of 2 1]
  by (simp add: two_ring_def duo_cluster_def node_ok_def node_endpoint_def node_key_def host_port_def to_string_u16_def
      to_string_nat.simps duo_node_def)

theorem two_node_ring_rejects_puts_witness:
  "\<exists>c w1 c' w2. client_connect (cluster_os 8) (client_new ''127.0.0.1'' 1) duo_cluster = (True, c, w1) \<and>
    client_put (cluster_os 8) c ''k'' [9] w1 = (Inr False, c', w2) \<and> 11 < next_fd w2"
  using two_node_ring_rejects_puts [OF duo_ring, of "''k''" "[9]" "duo_node 1" 8]
  by (simp add: put_small_def duo_node_def duo_cluster_def)

end
