(* ===== verification/Chord_Leave.thy ===== *)
theory Chord_Leave
  imports Chord_Cluster
begin

text \<open>
  A node that leaves the ring: \<open>leave\<close> of \<open>src/src/chord.cpp\<close> with the successor's server at the other end of each
  connection. The locale \<open>key_receiver\<close> is what \<open>transfer_keys_to_node\<close> needs of the receiving node, and the
  servers of theory \<open>Chord_Cluster\<close> provide it with their handler of \<open>TRANSFER_KEY\<close>. Which keys move depends on the
  interval from the predecessor to the successor; the results say when it holds all the keys of the
  leaving node and when it is empty.
\<close>

section \<open>The receiving node\<close>

locale key_receiver =
  fixes os :: "'w os" and m :: NodeInfo and ready :: "'w \<Rightarrow> bool" and held :: "'w \<Rightarrow> string \<rightharpoonup> bytes"
  assumes transfer: "ready w \<Longrightarrow> ni_id m \<noteq> ni_id (self_info n) \<Longrightarrow> length key < 2 ^ 32 \<Longrightarrow> length v < 2 ^ 32 \<Longrightarrow>
    \<exists>w'. send_key_transfer os (Some m) key v (n, w) = (Inr True, (n, w')) \<and> ready w' \<and> held w' = (held w)(key \<mapsto> v)"
begin

lemma transfer_loop_moves:
  assumes "ready w" "ni_id m \<noteq> ni_id (self_info n)" "umap_wf kvs"
    and "\<forall>(key, v) \<in> set kvs. length key < 2 ^ 32 \<and> length v < 2 ^ 32"
  shows "\<exists>st w'. transfer_loop os (Some m) kvs (n, w) = (Inr (), (n\<lparr>local_storage := st\<rparr>, w')) \<and> ready w' \<and>
    storage_map st = storage_map (local_storage n) |` (- fst ` set kvs) \<and> held w' = held w ++ map_of kvs"
  using assms
proof (induction kvs arbitrary: n w)
  case Nil
  have "storage_map (local_storage n) |` UNIV = storage_map (local_storage n)" by (simp add: restrict_map_def)
  then show ?case using Nil by (auto simp: ret_def intro!: exI [of _ "local_storage n"])
next
  case (Cons kv kvs)
  obtain k v where kv: "kv = (k, v)" by fastforce
  obtain w1 where w1: "send_key_transfer os (Some m) k v (n, w) = (Inr True, (n, w1))" "ready w1"
    "held w1 = (held w)(k \<mapsto> v)"
    using transfer [of w n k v] Cons.prems kv by auto
  let ?n = "n\<lparr>local_storage := snd (storage_remove (local_storage n) k)\<rparr>"
  have prems: "ni_id m \<noteq> ni_id (self_info ?n)" "umap_wf kvs"
    "\<forall>(key, v) \<in> set kvs. length key < 2 ^ 32 \<and> length v < 2 ^ 32"
    using Cons.prems by simp_all
  obtain st w' where st: "transfer_loop os (Some m) kvs (?n, w1) = (Inr (), (?n\<lparr>local_storage := st\<rparr>, w'))" "ready w'"
    "storage_map st = storage_map (local_storage ?n) |` (- fst ` set kvs)" "held w' = held w1 ++ map_of kvs"
    using Cons.IH [OF w1(2) prems] by blast
  have "transfer_loop os (Some m) (kv # kvs) (n, w) = (Inr (), (n\<lparr>local_storage := st\<rparr>, w'))"
    using kv w1(1) st(1) by (simp add: bindP_def)
  moreover have "storage_map st = storage_map (local_storage n) |` (- fst ` set (kv # kvs))"
    using st(3) kv by (auto simp: restrict_map_def fun_eq_iff)
  moreover have "held w' = held w ++ map_of (kv # kvs)"
    using st(4) w1(3) kv Cons.prems(3) by (simp add: map_add_upd_left dom_map_of_conv_image_fst)
  ultimately show ?case using st(2) by blast
qed

lemma transfer_keys_moves:
  assumes "ready w" "ni_id m \<noteq> ni_id (self_info n)" "storage_wf (local_storage n)"
    and "\<forall>key v. storage_map (local_storage n) key = Some v \<longrightarrow> length key < 2 ^ 32 \<and> length v < 2 ^ 32"
  shows "\<exists>st w'. transfer_keys_to_node os (Some m) (n, w) = (Inr (), (n\<lparr>local_storage := st\<rparr>, w')) \<and>
    storage_map st = storage_map (local_storage n) |` {key. \<not> transfer_predicate n m key} \<and>
    held w' = held w ++ (storage_map (local_storage n) |` {key. transfer_predicate n m key})"
proof -
  let ?P = "transfer_predicate n m" and ?s = "local_storage n"
  let ?kvs = "storage_get_keys_in_range ?s ?P"
  have map: "map_of ?kvs = storage_map ?s |` {key. ?P key}"
    using map_of_storage_get_keys_in_range [OF assms(3), of ?P] by (auto simp: restrict_map_def)
  have wf: "umap_wf ?kvs" by (rule umap_wf_storage_get_keys_in_range)
  have "length key < 2 ^ 32 \<and> length v < 2 ^ 32" if "(key, v) \<in> set ?kvs" for key v
  proof -
    have "map_of ?kvs key = Some v" using that wf by simp
    then show ?thesis using map assms(4) by (auto simp: restrict_map_def split: if_splits)
  qed
  then obtain st w' where st: "transfer_loop os (Some m) ?kvs (n, w) = (Inr (), (n\<lparr>local_storage := st\<rparr>, w'))"
    "storage_map st = storage_map ?s |` (- fst ` set ?kvs)" "held w' = held w ++ map_of ?kvs"
    using transfer_loop_moves [OF assms(1,2) wf] by blast
  have "key \<in> fst ` set ?kvs \<longleftrightarrow> ?P key \<and> storage_map ?s key \<noteq> None" for key
    using map [THEN fun_cong, of key] map_of_eq_None_iff [of ?kvs key] by (auto simp: restrict_map_def split: if_splits)
  then have "storage_map st = storage_map ?s |` {key. \<not> ?P key}"
    using st(2) by (auto simp: restrict_map_def fun_eq_iff)
  then show ?thesis
    using st assms(2) map by (auto simp: transfer_keys_to_node_def)
qed

end

section \<open>The servers as receivers\<close>

text \<open>The store of the server of node \<open>m\<close>, and a cluster in which this server runs with Chord enabled.\<close>

definition cluster_holds :: "NodeInfo \<Rightarrow> cluster \<Rightarrow> string \<rightharpoonup> bytes" where
  "cluster_holds m w =
     (case servers w (node_endpoint m) of None \<Rightarrow> Map.empty | Some s \<Rightarrow> storage_map (local_storage (chord_node s)))"

definition receiving :: "NodeInfo \<Rightarrow> cluster \<Rightarrow> bool" where
  "receiving m w \<longleftrightarrow> 0 \<le> next_fd w \<and> (\<exists>s. servers w (node_endpoint m) = Some s \<and> chord_enabled s)"

lemma answer_transfer:
  assumes "servers w e = Some s" "chord_enabled s" "length key < 2 ^ 32" "length v < 2 ^ 32"
  shows "cluster_answer os e (encodeRequest \<lparr>req_opcode = TRANSFER_KEY, req_key = bytes_of_string key, req_value = v\<rparr>) w =
    (encodeResponse (status_response SUCCESS),
     w\<lparr>servers := (servers w)(e \<mapsto> s\<lparr>chord_node := (chord_node s)\<lparr>local_storage := storage_put (local_storage (chord_node s)) key v\<rparr>\<rparr>)\<rparr>)"
proof -
  let ?r = "\<lparr>req_opcode = TRANSFER_KEY, req_key = bytes_of_string key, req_value = v\<rparr>"
  have "request_wf ?r" using assms(3,4) by (simp add: request_wf_def opcode_wf_iff)
  then have "decodeRequest (encodeRequest ?r) Request0 = (True, ?r)" using decodeRequest_encode [of ?r "[]"] by simp
  then show ?thesis
    using assms(1,2)
    by (simp add: cluster_answer_def handle_chord_operation_def bindP_def on_node_def receive_transferred_key_def)
qed

lemma decode_success: "decodeResponse (take 1024 (encodeResponse (status_response SUCCESS))) Response0 = (True, status_response SUCCESS)"
proof -
  have "length (encodeResponse (status_response SUCCESS)) \<le> 1024"
    by (simp add: encodeResponse_append status_response_def)
  moreover have "response_wf (status_response SUCCESS)" by (simp add: response_wf_def status_response_def)
  ultimately show ?thesis using decodeResponse_encode [of "status_response SUCCESS" "[]"] by simp
qed

lemma send_to_server:
  assumes "servers w (node_endpoint m) = Some s" "chord_enabled s" "0 \<le> next_fd w"
    and "ni_id m \<noteq> ni_id (self_info n)" "length key < 2 ^ 32" "length v < 2 ^ 32"
  shows "\<exists>w'. send_key_transfer (cluster_os (Suc k)) (Some m) key v (n, w) = (Inr True, (n, w')) \<and> next_fd w' = next_fd w + 1 \<and>
    servers w' = (servers w)(node_endpoint m \<mapsto>
      s\<lparr>chord_node := (chord_node s)\<lparr>local_storage := storage_put (local_storage (chord_node s)) key v\<rparr>\<rparr>)"
proof -
  let ?fd = "next_fd w" and ?e = "node_endpoint m"
  let ?w = "w\<lparr>next_fd := ?fd + 1, links := (links w)(?fd \<mapsto> (?e, []))\<rparr>"
  have ne: "encodeResponse (status_response SUCCESS) \<noteq> []" by (simp add: encodeResponse_append)
  have s: "servers ?w ?e = Some s" using assms(1) by simp
  have e: "(ni_address m, ni_port m) = ?e" by (simp add: node_endpoint_def)
  show ?thesis
    using assms(1,3,4) answer_transfer [OF s assms(2,5,6), of "cluster_os k"] decode_success ne e
    by (simp add: send_key_transfer_def cluster_calls_def cluster_connect_def cluster_send_def cluster_recv_def
        Let_def status_response_def)
qed

interpretation successor: key_receiver "cluster_os (Suc k)" m "receiving m" "cluster_holds m" for k m
proof
  fix w and n :: ChordNode and key v
  assume a: "receiving m w" "ni_id m \<noteq> ni_id (self_info n)" "length (key :: string) < 2 ^ 32" "length (v :: bytes) < 2 ^ 32"
  then obtain s where s: "servers w (node_endpoint m) = Some s" "chord_enabled s" "0 \<le> next_fd w"
    by (auto simp: receiving_def)
  then show "\<exists>w'. send_key_transfer (cluster_os (Suc k)) (Some m) key v (n, w) = (Inr True, (n, w')) \<and>
      receiving m w' \<and> cluster_holds m w' = (cluster_holds m w)(key \<mapsto> v)"
    using send_to_server [OF s a(2-4), of k] by (auto simp: receiving_def cluster_holds_def)
qed

section \<open>Leaving\<close>

definition storage_small :: "Storage \<Rightarrow> bool" where
  "storage_small st \<longleftrightarrow> (\<forall>key v. storage_map st key = Some v \<longrightarrow> length key < 2 ^ 32 \<and> length v < 2 ^ 32)"

lemma chord_leave_moves:
  assumes "chord_wf n" "successor_list n ! 0 = Some m" "ni_id m \<noteq> ni_id (self_info n)"
    and "receiving m w" "storage_small (local_storage n)"
  shows "\<exists>n' w'. chord_leave (cluster_os (Suc k)) (n, w) = (Inr (), (n', w')) \<and>
    successor_list n' = replicate SUCCESSOR_LIST_SIZE (Some (self_info n')) \<and>
    storage_map (local_storage n') = storage_map (local_storage n) |` {key. \<not> transfer_predicate n m key} \<and>
    cluster_holds m w' = cluster_holds m w ++ (storage_map (local_storage n) |` {key. transfer_predicate n m key})"
proof -
  obtain n1 where n1: "stop_maintenance (n, w) = (Inr (), (n1, w))" "self_info n1 = self_info n" "\<not> routing_locked n1"
    "local_storage n1 = local_storage n" "predecessor n1 = predecessor n" "successor_list n1 = successor_list n"
    using assms(1) by (auto simp: stop_maintenance_def chord_wf_def)
  have p: "transfer_predicate n1 m = transfer_predicate n m" using n1(5) by (simp add: transfer_predicate_def fun_eq_iff)
  have st: "storage_wf (local_storage n1)" "ni_id m \<noteq> ni_id (self_info n1)"
    "\<forall>key v. storage_map (local_storage n1) key = Some v \<longrightarrow> length key < 2 ^ 32 \<and> length v < 2 ^ 32"
    using assms n1 by (simp_all add: chord_wf_def storage_small_def)
  obtain t w1 where t: "transfer_keys_to_node (cluster_os (Suc k)) (Some m) (n1, w) = (Inr (), (n1\<lparr>local_storage := t\<rparr>, w1))"
    "storage_map t = storage_map (local_storage n1) |` {key. \<not> transfer_predicate n1 m key}"
    "cluster_holds m w1 = cluster_holds m w ++ (storage_map (local_storage n1) |` {key. transfer_predicate n1 m key})"
    using successor.transfer_keys_moves [OF assms(4) st(2,1,3), of k] by blast
  have "chord_leave (cluster_os (Suc k)) (n, w) =
      (Inr (), ((reset_single (n1\<lparr>local_storage := t, routing_locked := True\<rparr>))\<lparr>routing_locked := False\<rparr>, w1))"
    using n1 t(1) assms(2,3) by (simp add: chord_leave_def bindP_def with_lock_get with_lock_mod)
  moreover have "length (successor_list n1) = SUCCESSOR_LIST_SIZE" using assms(1) n1(6) by (simp add: chord_wf_def)
  ultimately show ?thesis using t(2,3) n1(4) p by (simp add: reset_single_def map_replicate_const)
qed

lemma interval_extends:
  assumes "in_range s p m False" "in_range h p s True"
  shows "in_range h p m True"
proof -
  have "s \<noteq> p" "m \<noteq> p" using assms(1) by auto
  then show ?thesis
    using assms in_range_open [of p m s] in_range_closed [of p s h] in_range_closed [of p m h] by auto
qed

text \<open>A node with identifier \<open>i\<close> between \<open>p\<close> and \<open>s\<close> that holds one key, for the examples.\<close>

definition leaving_node :: "byte \<Rightarrow> byte \<Rightarrow> byte \<Rightarrow> ChordNode" where
  "leaving_node p i s = (ring_node p i s)\<lparr>local_storage := storage_put storage_empty ''k'' [9]\<rparr>"

definition leaving_cluster :: "byte \<Rightarrow> cluster" where
  "leaving_cluster i = \<lparr>servers = [node_endpoint (duo_node i) \<mapsto> duo_server i 1], links = (\<lambda>_. None), next_fd = 3\<rparr>"

lemma leaving_example:
  "chord_wf (leaving_node p i s)" "successor_list (leaving_node p i s) ! 0 = Some (duo_node s)"
  "predecessor (leaving_node p i s) = Some (duo_node p)" "ni_id (self_info (leaving_node p i s)) = mk_hash160 [i]"
  "storage_small (local_storage (leaving_node p i s))" "receiving (duo_node s) (leaving_cluster s)"
  "ni_id (duo_node s) = mk_hash160 [s]"
  using chord_wf_new [of "''127.0.0.1''" 8001]
  by (simp_all add: leaving_node_def leaving_cluster_def chord_wf_def ring_node_def duo_node_def storage_small_def
      receiving_def duo_server_def)



text \<open>
  C28. A node that leaves a ring of two, or that was never notified, keeps its keys to itself: when the
  predecessor is the successor or not set, \<open>leave\<close> returns without moving any key but those whose hash is
  exactly the successor's identifier. The keys remain in the store of a node that no longer belongs
  to the ring.
\<close>

theorem leave_strands_keys:
  assumes "chord_wf n" "successor_list n ! 0 = Some m" "ni_id m \<noteq> ni_id (self_info n)"
    and "case predecessor n of None \<Rightarrow> True | Some p \<Rightarrow> ni_id p = ni_id m"
    and "receiving m w" "storage_small (local_storage n)"
  shows "\<exists>n' w'. chord_leave (cluster_os (Suc k)) (n, w) = (Inr (), (n', w')) \<and>
    successor_list n' = replicate SUCCESSOR_LIST_SIZE (Some (self_info n')) \<and>
    (\<forall>key. SHA1_hash key \<noteq> ni_id m \<longrightarrow>
       storage_map (local_storage n') key = storage_map (local_storage n) key \<and>
       cluster_holds m w' key = cluster_holds m w key)"
proof -
  have "\<not> transfer_predicate n m key" if "SHA1_hash key \<noteq> ni_id m" for key
    using that assms(4) by (simp add: transfer_predicate_def split: option.splits)
  then show ?thesis
    using chord_leave_moves [OF assms(1-3,5,6), of k]
    by (fastforce simp: restrict_map_def map_add_def)
qed

theorem leave_strands_keys_witness:
  "\<exists>n' w'. chord_leave (cluster_os 1) (leaving_node 2 1 2, leaving_cluster 2) = (Inr (), (n', w')) \<and>
    successor_list n' = replicate SUCCESSOR_LIST_SIZE (Some (self_info n')) \<and>
    (\<forall>key. SHA1_hash key \<noteq> mk_hash160 [2] \<longrightarrow>
       storage_map (local_storage n') key = storage_map (local_storage (leaving_node 2 1 2)) key \<and>
       cluster_holds (duo_node 2) w' key = cluster_holds (duo_node 2) (leaving_cluster 2) key)"
proof -
  have "mk_hash160 [2] \<noteq> mk_hash160 [1]" by (simp add: hash_bytes_eq_iff [symmetric])
  then show ?thesis
    using leave_strands_keys [OF leaving_example(1,2) _ _ leaving_example(6,5), where k = 0]
    by (simp add: leaving_example)
qed

end
