(* ===== verification/Replication_Queue.thy ===== *)
theory Replication_Queue
  imports Replication
begin

text \<open>
  The queue of asynchronous replication of \<open>src/src/replication.cpp\<close> with its threads: those that call
  \<open>enqueue_replication_task\<close>, the processing thread that runs \<open>process_replication_queue\<close>, and the one that
  calls \<open>stop_async_processing\<close>. Theory \<open>Replication\<close> runs the loop alone on a queue nobody else touches;
  here it is a labelled step relation. A task is processed without the lock; whether the replicas
  took it is left open. The thread holds the lock while it tests the inner loop (\<open>Q_locked\<close>) and
  between a false predicate and blocking (\<open>Q_checked\<close>). The retry of a task calls \<open>notify_one\<close> as well;
  the only thread that waits is the one that calls it, so this has no effect.
\<close>

section \<open>State and steps\<close>

datatype qthread =
    Q_head                         \<comment> \<open>about to test \<open>while (running.load())\<close>\<close>
  | Q_acquire                      \<comment> \<open>about to lock and to test the wait predicate\<close>
  | Q_checked                      \<comment> \<open>holds the lock, predicate was false, about to block\<close>
  | Q_blocked                      \<comment> \<open>blocked in \<open>queue_cv.wait\<close>\<close>
  | Q_locked                       \<comment> \<open>holds the lock, at the test of the inner loop\<close>
  | Q_processing ReplicationTask   \<comment> \<open>in \<open>process_single_task\<close>, lock released\<close>
  | Q_retry ReplicationTask        \<comment> \<open>about to enqueue a failed task again\<close>
  | Q_relock                       \<comment> \<open>about to lock again for the inner loop\<close>
  | Q_exited

record rqueue =
  q_tasks :: "ReplicationTask list"
  q_running :: bool
  q_thread :: qthread
  q_notifies :: nat          \<comment> \<open>calls of \<open>enqueue_replication_task\<close> between push and \<open>notify_one\<close>\<close>
  q_stop_notify :: bool      \<comment> \<open>\<open>stop_async_processing\<close> has cleared \<open>running\<close> and not yet called \<open>notify_all\<close>\<close>

text \<open>The state after \<open>start_async_processing\<close>.\<close>

definition queue_started :: rqueue where
  "queue_started = \<lparr>q_tasks = [], q_running = True, q_thread = Q_head, q_notifies = 0, q_stop_notify = False\<rparr>"

definition queue_free :: "rqueue \<Rightarrow> bool" where
  "queue_free q \<longleftrightarrow> q_thread q \<noteq> Q_checked \<and> q_thread q \<noteq> Q_locked"

datatype qevent =
    Q_enqueue ReplicationTask
  | Q_notify_one
  | Q_step                           \<comment> \<open>a step of the processing thread\<close>
  | Q_attempt ReplicationTask bool   \<comment> \<open>the end of \<open>process_single_task\<close> and its result\<close>
  | Q_stop
  | Q_notify_all
  | Q_spurious

definition wake_q :: "qthread \<Rightarrow> qthread" where
  "wake_q t = (if t = Q_blocked then Q_acquire else t)"

inductive queue_step :: "ReplicationConfig \<Rightarrow> rqueue \<Rightarrow> qevent \<Rightarrow> rqueue \<Rightarrow> bool" for cfg where
  q_enqueue: "queue_free q \<Longrightarrow>
    queue_step cfg q (Q_enqueue t) (q\<lparr>q_tasks := q_tasks q @ [t], q_notifies := Suc (q_notifies q)\<rparr>)"
| q_notify: "q_notifies q = Suc n \<Longrightarrow>
    queue_step cfg q Q_notify_one (q\<lparr>q_notifies := n, q_thread := wake_q (q_thread q)\<rparr>)"
| q_head_go: "q_thread q = Q_head \<Longrightarrow> q_running q \<Longrightarrow> queue_step cfg q Q_step (q\<lparr>q_thread := Q_acquire\<rparr>)"
| q_head_exit: "q_thread q = Q_head \<Longrightarrow> \<not> q_running q \<Longrightarrow> queue_step cfg q Q_step (q\<lparr>q_thread := Q_exited\<rparr>)"
| q_lock: "q_thread q = Q_acquire \<Longrightarrow> q_tasks q \<noteq> [] \<or> \<not> q_running q \<Longrightarrow>
    queue_step cfg q Q_step (q\<lparr>q_thread := Q_locked\<rparr>)"
| q_check: "q_thread q = Q_acquire \<Longrightarrow> q_tasks q = [] \<Longrightarrow> q_running q \<Longrightarrow>
    queue_step cfg q Q_step (q\<lparr>q_thread := Q_checked\<rparr>)"
| q_block: "q_thread q = Q_checked \<Longrightarrow> queue_step cfg q Q_step (q\<lparr>q_thread := Q_blocked\<rparr>)"
| q_pop: "q_thread q = Q_locked \<Longrightarrow> q_running q \<Longrightarrow> q_tasks q = t # ts \<Longrightarrow>
    queue_step cfg q Q_step (q\<lparr>q_tasks := ts, q_thread := Q_processing t\<rparr>)"
| q_leave: "q_thread q = Q_locked \<Longrightarrow> q_tasks q = [] \<or> \<not> q_running q \<Longrightarrow>
    queue_step cfg q Q_step (q\<lparr>q_thread := Q_head\<rparr>)"
| q_success: "q_thread q = Q_processing t \<Longrightarrow>
    queue_step cfg q (Q_attempt t True) (q\<lparr>q_thread := Q_relock\<rparr>)"
| q_failure: "q_thread q = Q_processing t \<Longrightarrow> retry_count t < max_retries cfg \<Longrightarrow>
    queue_step cfg q (Q_attempt t False) (q\<lparr>q_thread := Q_retry (t\<lparr>retry_count := retry_count t + 1\<rparr>)\<rparr>)"
| q_give_up: "q_thread q = Q_processing t \<Longrightarrow> \<not> retry_count t < max_retries cfg \<Longrightarrow>
    queue_step cfg q (Q_attempt t False) (q\<lparr>q_thread := Q_relock\<rparr>)"
| q_requeue: "q_thread q = Q_retry t \<Longrightarrow>
    queue_step cfg q Q_step (q\<lparr>q_tasks := q_tasks q @ [t], q_thread := Q_relock\<rparr>)"
| q_relock: "q_thread q = Q_relock \<Longrightarrow> queue_step cfg q Q_step (q\<lparr>q_thread := Q_locked\<rparr>)"
| q_stop: "q_running q \<Longrightarrow> queue_step cfg q Q_stop (q\<lparr>q_running := False, q_stop_notify := True\<rparr>)"
| q_notify_all: "q_stop_notify q \<Longrightarrow>
    queue_step cfg q Q_notify_all (q\<lparr>q_stop_notify := False, q_thread := wake_q (q_thread q)\<rparr>)"
| q_spurious: "q_thread q = Q_blocked \<Longrightarrow> queue_step cfg q Q_spurious (q\<lparr>q_thread := Q_acquire\<rparr>)"

inductive_cases queue_stepE: "queue_step cfg q e r"

abbreviation queue_run :: "ReplicationConfig \<Rightarrow> rqueue \<Rightarrow> qevent list \<Rightarrow> rqueue \<Rightarrow> bool" where
  "queue_run cfg \<equiv> trace (queue_step cfg)"

section \<open>An example run\<close>

text \<open>A task whose only replica does not answer is enqueued and attempted once.\<close>

definition example_task :: ReplicationTask where
  "example_task = replication_task PUT_TASK ''k'' [1] [None]"

definition example_queue :: "ReplicationTask list \<Rightarrow> qthread \<Rightarrow> rqueue" where
  "example_queue ts t = \<lparr>q_tasks = ts, q_running = True, q_thread = t, q_notifies = 1, q_stop_notify = False\<rparr>"

lemma retry_count_example [simp]: "retry_count example_task = 0"
  by (simp add: example_task_def replication_task_def)

lemma example_enqueue:
  "queue_step replication_config_default queue_started (Q_enqueue example_task) (example_queue [example_task] Q_head)"
  using q_enqueue [of queue_started replication_config_default example_task]
  by (simp add: queue_started_def queue_free_def example_queue_def)

lemma example_attempt:
  "queue_run replication_config_default queue_started
     [Q_enqueue example_task, Q_step, Q_step, Q_step, Q_attempt example_task False]
     (example_queue [] (Q_retry (example_task\<lparr>retry_count := 1\<rparr>)))"
proof -
  let ?cfg = replication_config_default and ?q = "\<lambda>t. example_queue [example_task] t"
  let ?run = "[(Q_enqueue example_task, ?q Q_head), (Q_step, ?q Q_acquire), (Q_step, ?q Q_locked),
    (Q_step, example_queue [] (Q_processing example_task)),
    (Q_attempt example_task False, example_queue [] (Q_retry (example_task\<lparr>retry_count := 1\<rparr>)))]"
  have "queue_step ?cfg (?q Q_head) Q_step (?q Q_acquire)"
    using q_head_go [of "?q Q_head" ?cfg] by (simp add: example_queue_def)
  moreover have "queue_step ?cfg (?q Q_acquire) Q_step (?q Q_locked)"
    using q_lock [of "?q Q_acquire" ?cfg] by (simp add: example_queue_def)
  moreover have "queue_step ?cfg (?q Q_locked) Q_step (example_queue [] (Q_processing example_task))"
    using q_pop [of "?q Q_locked" example_task "[]" ?cfg] by (simp add: example_queue_def)
  moreover have "queue_step ?cfg (example_queue [] (Q_processing example_task)) (Q_attempt example_task False)
      (example_queue [] (Q_retry (example_task\<lparr>retry_count := 1\<rparr>)))"
    using q_failure [of "example_queue [] (Q_processing example_task)" example_task ?cfg]
    by (simp add: example_queue_def replication_config_default_def)
  ultimately show ?thesis
    using trace_steps [of "queue_step ?cfg" queue_started ?run] example_enqueue by simp
qed

section \<open>The number of attempts\<close>

text \<open>The attempts the tasks in the queue and in the hands of the thread can still cause.\<close>

fun thread_attempts :: "ReplicationConfig \<Rightarrow> qthread \<Rightarrow> nat" where
  "thread_attempts cfg (Q_processing t) = attempts_left cfg t"
| "thread_attempts cfg (Q_retry t) = attempts_left cfg t"
| "thread_attempts cfg _ = 0"

definition queue_attempts :: "ReplicationConfig \<Rightarrow> rqueue \<Rightarrow> nat" where
  "queue_attempts cfg q = sum_list (map (attempts_left cfg) (q_tasks q)) + thread_attempts cfg (q_thread q)"

definition enqueued :: "qevent list \<Rightarrow> ReplicationTask list" where
  "enqueued es = concat (map (\<lambda>e. case e of Q_enqueue t \<Rightarrow> [t] | _ \<Rightarrow> []) es)"

definition attempts :: "qevent list \<Rightarrow> nat" where
  "attempts es = length (filter (\<lambda>e. case e of Q_attempt t ok \<Rightarrow> True | _ \<Rightarrow> False) es)"

lemma queue_events_append [simp]:
  "enqueued (es @ fs) = enqueued es @ enqueued fs" "attempts (es @ fs) = attempts es + attempts fs"
  by (simp_all add: enqueued_def attempts_def)

lemma queue_step_attempts:
  "queue_step cfg q e r \<Longrightarrow>
     attempts [e] + queue_attempts cfg r \<le> queue_attempts cfg q + sum_list (map (attempts_left cfg) (enqueued [e]))"
  by (erule queue_stepE) (auto simp: queue_attempts_def attempts_def enqueued_def attempts_left_def wake_q_def)

lemma queue_run_attempts:
  "queue_run cfg q es r \<Longrightarrow>
     attempts es + queue_attempts cfg r \<le> queue_attempts cfg q + sum_list (map (attempts_left cfg) (enqueued es))"
proof (induction rule: trace.induct)
  case (trace_nil q)
  then show ?case by (simp add: attempts_def enqueued_def)
next
  case (trace_snoc q es r e s)
  then show ?case using queue_step_attempts [OF trace_snoc.hyps(2)] by simp
qed



section \<open>Wake-ups\<close>

definition queue_inv :: "rqueue \<Rightarrow> bool" where
  "queue_inv q \<longleftrightarrow>
     (q_thread q = Q_checked \<longrightarrow> q_tasks q = []) \<and> (q_thread q = Q_exited \<longrightarrow> \<not> q_running q) \<and>
     (q_thread q = Q_blocked \<longrightarrow> q_tasks q \<noteq> [] \<longrightarrow> q_notifies q \<noteq> 0)"

lemma queue_inv_step: "queue_step cfg q e r \<Longrightarrow> queue_inv q \<Longrightarrow> queue_inv r"
  by (erule queue_stepE) (auto simp: queue_inv_def queue_free_def wake_q_def)

lemma queue_inv_started: "queue_inv queue_started"
  by (simp add: queue_inv_def queue_started_def)

lemma queue_inv_run: "queue_run cfg queue_started es q \<Longrightarrow> queue_inv q"
  by (erule trace_invariant [where I = queue_inv]) (blast intro: queue_inv_step queue_inv_started)+

lemma queue_progress:
  assumes "queue_inv q" "q_running q" "q_tasks q \<noteq> []"
  shows "\<exists>e r. queue_step cfg q e r \<and> e \<in> {Q_notify_one, Q_step} \<union> range (\<lambda>(t, b). Q_attempt t b)"
proof (cases "q_thread q")
  case Q_blocked
  then obtain n where "q_notifies q = Suc n" using assms by (auto simp: queue_inv_def gr0_conv_Suc)
  then show ?thesis using q_notify [of q n cfg] by blast
next
  case (Q_processing t)
  then show ?thesis using q_success [of q t cfg] by fastforce
next
  case Q_locked
  then show ?thesis using q_pop [of q "hd (q_tasks q)" "tl (q_tasks q)" cfg] assms by auto
next
  case (Q_retry t)
  then show ?thesis using q_requeue [of q t cfg] by blast
qed (use assms q_head_go [of q cfg] q_lock [of q cfg] q_relock [of q cfg] in \<open>auto simp: queue_inv_def\<close>)

text \<open>
  While asynchronous replication runs no task is stranded: in every reachable state with \<open>running\<close>
  set and a task in the queue, the processing thread, the replicas it waits for or a pending
  notification can make a step.
\<close>

theorem async_no_stranded_task:
  assumes "queue_run cfg queue_started es q" "q_running q" "q_tasks q \<noteq> []"
  shows "\<exists>e r. queue_step cfg q e r \<and> e \<in> {Q_notify_one, Q_step} \<union> range (\<lambda>(t, b). Q_attempt t b)"
  using queue_progress queue_inv_run assms by blast

theorem async_no_stranded_task_witness:
  "\<exists>e r. queue_step replication_config_default (example_queue [example_task] Q_head) e r \<and>
     e \<in> {Q_notify_one, Q_step} \<union> range (\<lambda>(t, b). Q_attempt t b)"
  by (rule async_no_stranded_task [OF trace_single [of "queue_step replication_config_default", OF example_enqueue]])
    (simp_all add: example_queue_def)

text \<open>
  Stopping asynchronous replication can hang: \<open>stop_async_processing\<close> clears \<open>running\<close> and calls
  \<open>notify_all\<close> without the queue's mutex, so both can happen between the test of the wait predicate and
  the blocking of the processing thread. The system then reaches a state in which \<open>running\<close> is
  false, the thread is blocked, and only a new task or a spurious wake-up can free it; \<open>join\<close> waits
  for it, and with it the shutdown of the node.
\<close>

theorem async_stop_lost_wakeup:
  "\<exists>es q. queue_run cfg queue_started es q \<and> \<not> q_running q \<and> q_thread q = Q_blocked \<and> \<not> q_stop_notify q \<and>
      {e. \<exists>r. queue_step cfg q e r} \<subseteq> range Q_enqueue \<union> {Q_spurious}"
proof -
  let ?s = "\<lambda>run t n. \<lparr>q_tasks = [], q_running = run, q_thread = t, q_notifies = 0, q_stop_notify = n\<rparr>"
  let ?run = "[(Q_step, ?s True Q_acquire False), (Q_step, ?s True Q_checked False), (Q_stop, ?s False Q_checked True),
      (Q_notify_all, ?s False Q_checked False), (Q_step, ?s False Q_blocked False)]"
  have "queue_step cfg queue_started Q_step (?s True Q_acquire False)"
    using q_head_go [of queue_started cfg] by (simp add: queue_started_def)
  moreover have "queue_step cfg (?s True Q_acquire False) Q_step (?s True Q_checked False)"
    using q_check [of "?s True Q_acquire False" cfg] by simp
  moreover have "queue_step cfg (?s True Q_checked False) Q_stop (?s False Q_checked True)"
    using q_stop [of "?s True Q_checked False" cfg] by simp
  moreover have "queue_step cfg (?s False Q_checked True) Q_notify_all (?s False Q_checked False)"
    using q_notify_all [of "?s False Q_checked True" cfg] by (simp add: wake_q_def)
  moreover have "queue_step cfg (?s False Q_checked False) Q_step (?s False Q_blocked False)"
    using q_block [of "?s False Q_checked False" cfg] by simp
  ultimately have "queue_run cfg queue_started (map fst ?run) (?s False Q_blocked False)"
    using trace_steps [of "queue_step cfg" queue_started ?run] by simp
  moreover have "{e. \<exists>r. queue_step cfg (?s False Q_blocked False) e r} \<subseteq> range Q_enqueue \<union> {Q_spurious}"
    by (auto elim!: queue_stepE)
  ultimately show ?thesis by fastforce
qed

end
