(* ===== verification/Spec2Isabelle.thy ===== *)
theory Spec2Isabelle
  imports Durability Server_System Chord_Maintenance Tools Chord_Leave Replication_Queue
begin

text \<open>
  \<^bold>\<open>FunnelKVS: a verification of a distributed key-value store.\<close>

  FunnelKVS is a key-value store in C++. A client sends binary requests over TCP to a server; the server
  cuts the stream into requests, hands each connection to a thread pool and answers from an
  in-memory store. The Chord server extends the base server by a Chord node: keys and nodes are SHA-1
  identifiers on a ring of \<open>2^160\<close> positions, a node owns the interval from its predecessor to itself,
  answers requests for it, redirects the others, copies its data to its successors, and watches its
  neighbours with pings. Two programs wrap the client and the Chord server for the command line.

  \<^bold>\<open>Method.\<close> Each C++ function is a HOL function of the same name (with the prefix of its class where
  the name is not unique). A class is a record of its data members. A function that changes an object or uses
  the network takes the state and returns the next one; its result is a value or a fault, where a
  fault is a thrown exception, a thread that blocks for ever on a mutex that it holds, an access
  outside an array, or the exhaustion of a bound of the model (theory \<open>Prelude\<close>). The operating system
  is not part of the program: it is a record of functions over a world (\<open>os\<close>, theory \<open>Net\<close>), every definition
  that reaches it takes this record, and what POSIX promises of a connected socket is stated in
  locales. Integers have the widths of the code: bytes, ports, lengths and SHA-1 words are words, and a
  computation that wraps in C++ wraps in the model. Threads that share a mutex and a condition
  variable are labelled step relations.

  \<^bold>\<open>Theories and sources.\<close>

  \<^item> \<open>Prelude\<close>, \<open>Cpp_Std\<close>: faults, programs with state, traces of step relations, big-endian values; the
    parts of the C++ library that the code calls (\<open>to_string\<close>, \<open>stoi\<close>, \<open>atoi\<close>, \<open>find\<close>, \<open>substr\<close>). An address and a port
    survive their text form.
  \<^item> \<open>Hash\<close>, \<open>Sha1\<close> (\<open>include/hash.h\<close>, \<open>src/hash.cpp\<close>): identifiers as arrays of 20 bytes, comparison, ring arithmetic,
    hexadecimal text, and SHA-1. Ring operations are arithmetic modulo \<open>2^160\<close> (with one exception in
    \<open>distance\<close>, which is stated), and the digest is the one of the standard.
  \<^item> \<open>Protocol\<close> (\<open>protocol.h\<close>, \<open>protocol.cpp\<close>): codes, requests, responses. Encoding and decoding are inverse,
    and the decoder accepts nothing but encodings; both codecs are instances of the locale \<open>frame_codec\<close>.
  \<^item> \<open>Storage\<close> (\<open>storage.h\<close>, \<open>storage.cpp\<close>): the store as an association list; the order of the code's hash table is
    not specified and no statement depends on it. The locale \<open>kv_store\<close> states what a store promises; the store and a lone Chord
    node are instances.
  \<^item> \<open>Net\<close>, \<open>Client\<close> (\<open>client.h\<close>, \<open>client.cpp\<close>): the system calls, the send and receive loops, the connection state
    of the client, the five operations and redirects. The locales \<open>send_os\<close>, \<open>recv_os\<close> and \<open>conn_os\<close> are the
    contract of a connected socket.
  \<^item> \<open>Server\<close> (\<open>server.h\<close>, \<open>server.cpp\<close>): socket set-up, the connection loop and the request switch.
    The locale \<open>request_server\<close> is the contract between the loop and the virtual \<open>process_request\<close>; the
    base server and the Chord server are instances. Every segmentation of the stream gives the
    same requests and answers.
  \<^item> \<open>ThreadPool\<close>, \<open>Server_System\<close> (\<open>server.h\<close>, \<open>server.cpp\<close>): the pool as a step relation, then the accept thread, the
    workers and the thread that stops the server together. Connections are handled once and in
    order, \<open>stop\<close> can finish, and the destructor of the pool can lose its wake-up.
  \<^item> \<open>Session\<close>, \<open>Concurrent\<close>: clients and base servers joined by a network, one connection after the other
    and many at the same time. A session behaves as a map; interleaved connections are linearizable;
    two operations of the Chord node are not.
  \<^item> \<open>Node_Info\<close>, \<open>Failure_Detector\<close>, \<open>Replication\<close>, \<open>Replication_Queue\<close> (\<open>chord.h\<close>, \<open>replication.h\<close>, \<open>replication.cpp\<close>): nodes, the table
    of the failure detector, synchronous and queued replication, the queue with its threads. The
    locale \<open>replica_net\<close> states what the network promises to replication, and the network of \<open>Session\<close> keeps it.
  \<^item> \<open>Chord\<close>, \<open>Chord_Routing\<close>, \<open>Chord_Data\<close>, \<open>Chord_Invariant\<close>, \<open>Chord_Maintenance\<close> (\<open>chord.h\<close>, \<open>chord.cpp\<close>): the node and all
    its operations, routing and ownership, storing and replicating, the invariants of all reachable
    states (locale \<open>node_invariant\<close>), the background loops and the printing of the tables.
  \<^item> \<open>Chord_Server\<close> (\<open>chord_server.h\<close>, \<open>chord_server.cpp\<close>): the request switch of the Chord server, its life cycle and the
    remote calls. Alone in its ring it refines the base server.
  \<^item> \<open>Chord_Cluster\<close>, \<open>Chord_Leave\<close>: Chord servers that answer each other's requests. The locale \<open>key_receiver\<close> states what
    the transfer of keys needs of the receiver; a leaving node moves the keys it owns, or none.
  \<^item> \<open>Durability\<close>: reads that fall back to replicas after failures, and deletes that miss replicas.
  \<^item> \<open>Tools\<close> (\<open>client_tool.cpp\<close>, \<open>chord_server_main.cpp\<close>): the two programs, from their arguments to output and exit code.

  \<^bold>\<open>What is shown.\<close> End to end, a client and a server implement a map, for a session, for runs of the
  command line client and for concurrent connections. Identifiers, digests and the wire format agree with
  their specifications. Correct predecessors partition the ring, and \<open>find_successor\<close> is right whenever it
  returns. An acknowledged put is on the owner and on the replicas and survives the loss of all but one
  copy; a node that leaves a ring of three or more hands over its keys. Every reachable node is well
  formed. Tasks and connections are handled in order, and shutdown, retries and loops are bounded.
  The theorems also show precisely where the code does not do what its documents say: the
  identifiers for which \<open>find_successor\<close> blocks, the keys a notification does not move, stabilisation that
  learns nothing, the ring of two nodes that rejects every put or loses the keys of a node that
  leaves, deleted values that return, lost wake-ups, and inputs that wrap.

  \<^bold>\<open>Bounds of the model.\<close> \<open>while (true)\<close> in \<open>handle_client\<close> has a bound on its iterations; one more
  than the number of requests suffices, and the theorems prove that the result without a fault is
  reached. The loop of \<open>find_predecessor\<close> takes such a bound as well. The background loops and the
  waiting loop of the server program take a list with one entry for each sleep, which says what the
  other threads do meanwhile; statements quantify over these lists. The queue of asynchronous
  replication ends by a measure, the attempts that are left. Nested requests between servers are
  bounded by an arbitrary number, over which the statements quantify.

  \<^bold>\<open>Atomicity.\<close> A method that holds one mutex over its whole body is one step. The operations of the Chord node that
  lock more than once are sequences of such steps; \<open>Concurrent\<close> interleaves the steps of stores and removals
  of one key, other interleavings of node operations are not explored. Deadlock means that a thread
  locks the mutex that it holds.

  \<^bold>\<open>Not modelled.\<close> Exhaustion of memory and of threads, and exceptions of the standard library that only
  it causes; durations, except where the code compares times; the log lines of the library
  functions (the lines of the two programs are modelled); overflow of counters that would need \<open>2^31\<close>
  failed pings; \<open>update_finger_table_entry\<close>, which is declared and never defined; the thread that is detached by
  \<open>stop_maintenance\<close> and may outlive its node; signals that arrive while the server program does not sleep.
  The texts of exceptions are left open by the C++ standard and are a parameter of the programs. The tests
  and documents of the repository state intentions and are not part of the program.

  \<^bold>\<open>Next.\<close> Reads and deletes in a ring of two nodes, redirects that succeed, the repair of replicas, and rounds
  of failure detection.
\<close>

end
